theory Spec2Isabelle
  imports Complex_Main "HOL-Library.Word"
begin

unbundle bit_operations_syntax

section \<open>The benchmark driver of \<^verbatim>\<open>src/benchmark.c\<close>\<close>

text \<open>
  A shallow embedding of the adaptive benchmark driver.  The C types are kept:
  \<^verbatim>\<open>size_t\<close>, \<^verbatim>\<open>ssize_t\<close> and \<^verbatim>\<open>uint64_t\<close> are 64-bit words (the program is
  Linux-only: it uses \<^verbatim>\<open>perf_event_open\<close>), so \<open>+\<close>, \<open>-\<close> and \<open>*\<close> wrap around as
  they do in C; \<^verbatim>\<open>ssize_t\<close> is read through \<open>sint\<close>.  The fields of a
  \<^verbatim>\<open>struct timespec\<close> are integers.  The value of a \<^verbatim>\<open>double\<close> is a real number.
  The elapsed time of a pass and the quantities that are printed are the exact values;
  the re-estimate of the multiplier (line 218), whose result depends on the rounding, is
  computed with the operations of the machine, which are parameters of the model.  A
  division by zero (which yields an infinity or a NaN in C) is the explicit value
  \<open>Non_finite\<close>, and a conversion from \<^verbatim>\<open>double\<close> to \<^verbatim>\<open>size_t\<close> whose value does
  not fit is undefined behaviour, an outcome of its own.

  Everything the program obtains from the operating system is a parameter: the results
  of \<^verbatim>\<open>perf_event_open\<close>, of \<^verbatim>\<open>clock_gettime\<close>, of \<^verbatim>\<open>read\<close>, of
  \<^verbatim>\<open>malloc\<close> and \<^verbatim>\<open>open\<close>.  What it prints is recorded as a list of events per
  stream, each event holding the arguments handed to \<^verbatim>\<open>printf\<close>; the rendering of
  the format string is not modelled.
\<close>

type_synonym size_t = "64 word"
type_synonym ssize_t = "64 word"
type_synonym uint64_t = "64 word"
type_synonym char16_t = "16 word"

text \<open>Lines 19-22: the time goal, in seconds (the default of the macro).\<close>

definition TIME_GOAL :: real where
  "TIME_GOAL = 2.0"

text \<open>Line 43.\<close>

definition EVENT_COUNT :: int where
  "EVENT_COUNT = 2"

subsection \<open>Doubles\<close>

datatype dbl = Fin real | Non_finite

text \<open>The division of two doubles, as \<^verbatim>\<open>printf\<close> receives it.\<close>

definition ddiv :: "real \<Rightarrow> real \<Rightarrow> dbl" where
  "ddiv x y = (if y = 0 then Non_finite else Fin (x / y))"

text \<open>
  The conversion of a double to \<^verbatim>\<open>size_t\<close>: the value is truncated towards zero;
  when the truncated value is not a \<^verbatim>\<open>size_t\<close> the behaviour is undefined (\<open>None\<close>).
\<close>

definition double_to_size_t :: "real \<Rightarrow> size_t option" where
  "double_to_size_t x =
     (let t = (if 0 \<le> x then \<lfloor>x\<rfloor> else \<lceil>x\<rceil>)
      in if 0 \<le> t \<and> t < 2 ^ 64 then Some (word_of_int t) else None)"

text \<open>
  The arithmetic of line 218 is that of the machine's doubles, whose results are rounded.
  The three operations it uses are parameters of the model: the conversion of a
  \<^verbatim>\<open>size_t\<close> to a double, the product and the quotient of two doubles, each as the
  machine computes it.  \<open>fmul fp x 1.05\<close> is the machine's product of \<open>x\<close> and the double
  that the constant \<^verbatim>\<open>1.05\<close> denotes, and \<open>fdiv fp x t\<close> its quotient of \<open>x\<close> by the
  double that \<^verbatim>\<open>tsdiff\<close> returns when the exact difference of the two times is \<open>t\<close>.
  What is proved below holds for every choice of the three operations.
\<close>

record double_ops =
  fsize :: "size_t \<Rightarrow> real"
  fmul :: "real \<Rightarrow> real \<Rightarrow> real"
  fdiv :: "real \<Rightarrow> real \<Rightarrow> real"

subsection \<open>Output\<close>

datatype stdout_line =
    FAIL string
  | Benchmark (bench_label: string) (bench_file: string) (iterations: size_t)
      (ns_per_op: dbl) (MB_per_s: dbl) (hw_columns: "(dbl \<times> dbl \<times> dbl) option")

datatype stderr_line =
    Perror string
  | Short_file string size_t size_t
  | Warning string

record io =
  stdout :: "stdout_line list"
  stderr :: "stderr_line list"

definition perror :: "string \<Rightarrow> io \<Rightarrow> io" where
  "perror s w = w\<lparr>stderr := stderr w @ [Perror s]\<rparr>"

definition print_FAIL :: "string \<Rightarrow> io \<Rightarrow> io" where
  "print_FAIL name w = w\<lparr>stdout := stdout w @ [FAIL name]\<rparr>"

subsection \<open>The performance counters (lines 42-79)\<close>

text \<open>
  The static state: the compile-time switch \<^verbatim>\<open>ALIGN\<close>, \<^verbatim>\<open>event_group\<close>,
  \<^verbatim>\<open>num_counters\<close> and the \<^verbatim>\<open>fd\<close> field of the two entries of \<^verbatim>\<open>events\<close>.
\<close>

record globals =
  ALIGN :: bool
  event_group :: int
  num_counters :: int
  events_fd :: "int list"

definition initial_globals :: "bool \<Rightarrow> globals" where
  "initial_globals al =
     \<lparr>ALIGN = al, event_group = - 1, num_counters = 0, events_fd = [- 1, - 1]\<rparr>"

text \<open>
  \<^verbatim>\<open>init_counters\<close>: \<open>sys i grp\<close> is what the \<^verbatim>\<open>perf_event_open\<close> system call
  returns for event \<open>i\<close> when asked to join group \<open>grp\<close>.
\<close>

function init_counters_loop :: "(int \<Rightarrow> int \<Rightarrow> int) \<Rightarrow> int \<Rightarrow> globals \<times> io \<Rightarrow> globals \<times> io" where
  "init_counters_loop sys i (g, w) =
     (if i < EVENT_COUNT then
        (let fd = sys i (event_group g);
             g1 = g\<lparr>events_fd := (events_fd g)[nat i := fd]\<rparr>
         in if fd = - 1 then init_counters_loop sys (i + 1) (g1, perror ''perf_event_open'' w)
            else
              (let g2 = g1\<lparr>num_counters := num_counters g1 + 1\<rparr>;
                   g3 = (if event_group g2 = - 1 then g2\<lparr>event_group := fd\<rparr> else g2)
               in init_counters_loop sys (i + 1) (g3, w)))
      else (g, w))"
  by pat_completeness auto
termination
  by (relation "measure (\<lambda>(sys, i, s). nat (EVENT_COUNT - i))") auto

definition init_counters :: "(int \<Rightarrow> int \<Rightarrow> int) \<Rightarrow> globals \<times> io \<Rightarrow> globals \<times> io" where
  "init_counters sys s = init_counters_loop sys 0 s"

subsection \<open>Measurement points (lines 81-130)\<close>

record timespec =
  tv_sec :: int
  tv_nsec :: int

record counters =
  ts :: timespec
  counters :: "uint64_t list"

text \<open>
  One call of \<^verbatim>\<open>reset_counters\<close> meets this environment: the time
  \<^verbatim>\<open>clock_gettime\<close> stores (\<open>None\<close>: it returned -1), and the words
  \<^verbatim>\<open>read(event_group, ...)\<close> delivers (\<open>None\<close>: it returned a negative count).
\<close>

record snap_env =
  clock_gettime :: "timespec option"
  read_group :: "uint64_t list option"

definition reset_counters :: "globals \<Rightarrow> snap_env \<Rightarrow> counters \<Rightarrow> io \<Rightarrow> int \<times> counters \<times> io" where
  "reset_counters g e c w =
     (case clock_gettime e of
        None \<Rightarrow> (- 1, c, perror ''clock_gettime'' w)
      | Some t \<Rightarrow>
          (let c1 = c\<lparr>ts := t\<rparr> in
           if event_group g \<noteq> - 1 then
             (case read_group e of
                None \<Rightarrow> (- 1, c1, perror ''read(event_group, ...)'' w)
              | Some v \<Rightarrow>
                  (let v1 = take (nat (2 * num_counters g + 1)) v
                   in (0, c1\<lparr>counters := v1 @ drop (length v1) (counters c1)\<rparr>, w)))
           else (0, c1, w)))"

text \<open>\<^verbatim>\<open>tsdiff\<close>, lines 115-130.\<close>

definition tsdiff :: "timespec \<Rightarrow> timespec \<Rightarrow> real" where
  "tsdiff start endt =
     (let sec = tv_sec endt - tv_sec start;
          nsec = tv_nsec endt - tv_nsec start;
          sec1 = (if nsec < 0 then sec - 1 else sec);
          nsec1 = (if nsec < 0 then nsec + 1000000000 else nsec)
      in real_of_int sec1 + real_of_int nsec1 * 0.000000001)"

subsection \<open>\<^verbatim>\<open>counterdiff\<close> (lines 132-146)\<close>

text \<open>
  The loop \<^verbatim>\<open>for (i, j = 0; i < EVENT_COUNT; i++)\<close> assigns \<^verbatim>\<open>j\<close> only: the
  automatic variable \<^verbatim>\<open>i\<close> is read without ever having been written.  Its value at
  that point is indeterminate, so it is a parameter of the model, \<open>i0\<close>.  The array
  \<^verbatim>\<open>out\<close> is the caller's uninitialised \<^verbatim>\<open>counts\<close>, a parameter as well.  An
  index below zero is outside \<^verbatim>\<open>events\<close>: undefined behaviour, \<open>None\<close>.
\<close>

function counterdiff_loop ::
  "int list \<Rightarrow> int \<Rightarrow> nat \<Rightarrow> uint64_t list \<Rightarrow> uint64_t list \<Rightarrow> uint64_t list \<Rightarrow> uint64_t list option" where
  "counterdiff_loop fds i j out start endc =
     (if i < EVENT_COUNT then
        (if i < 0 then None
         else if fds ! nat i = - 1 then counterdiff_loop fds (i + 1) j (out[nat i := 0]) start endc
         else counterdiff_loop fds (i + 1) (j + 1)
                (out[nat i := endc ! (2 * j + 1) - start ! (2 * j + 1)]) start endc)
      else Some out)"
  by pat_completeness auto
termination
  by (relation "measure (\<lambda>(fds, i, j, out, start, endc). nat (EVENT_COUNT - i))") auto

definition counterdiff ::
  "globals \<Rightarrow> int \<Rightarrow> uint64_t list \<Rightarrow> uint64_t list \<Rightarrow> uint64_t list \<Rightarrow> uint64_t list option" where
  "counterdiff g i0 out start endc = counterdiff_loop (events_fd g) i0 0 out start endc"

subsection \<open>\<^verbatim>\<open>print_results\<close> (lines 148-175)\<close>

text \<open>
  \<open>i0\<close> and \<open>counts0\<close> are the indeterminate contents of \<^verbatim>\<open>i\<close> (in
  \<^verbatim>\<open>counterdiff\<close>) and of the array \<^verbatim>\<open>counts\<close>.  The result is \<open>None\<close> when
  \<^verbatim>\<open>counterdiff\<close> has undefined behaviour.
\<close>

text \<open>
  \<^verbatim>\<open>toupper\<close> in the C locale (the program never sets another): the lower-case
  letters \<^verbatim>\<open>a\<close> to \<^verbatim>\<open>z\<close> (97 to 122) are mapped to the upper-case ones, every
  other character to itself.
\<close>

definition toupper :: "char \<Rightarrow> char" where
  "toupper c =
     (if 97 \<le> (of_char c :: nat) \<and> (of_char c :: nat) \<le> 122
      then char_of ((of_char c :: nat) - 32) else c)"

definition hw_results :: "globals \<Rightarrow> uint64_t list \<Rightarrow> size_t \<Rightarrow> size_t \<Rightarrow> (dbl \<times> dbl \<times> dbl) option" where
  "hw_results g counts n m =
     (if num_counters g = EVENT_COUNT then
        Some (ddiv (real (unat (counts ! 0))) (real (unat n) * real (unat m)),
              ddiv (real (unat (counts ! 1))) (real (unat n) * real (unat m)),
              ddiv (real (unat (counts ! 1))) (real (unat (counts ! 0))))
      else None)"

definition print_results ::
  "globals \<Rightarrow> int \<Rightarrow> uint64_t list \<Rightarrow> string \<Rightarrow> counters \<Rightarrow> counters \<Rightarrow> string \<Rightarrow> size_t \<Rightarrow> size_t
     \<Rightarrow> io \<Rightarrow> io option" where
  "print_results g i0 counts0 name start endc filename n m w =
     (let elapsed = tsdiff (ts start) (ts endc) in
      case counterdiff g i0 counts0 (counters start) (counters endc) of
        None \<Rightarrow> None
      | Some counts \<Rightarrow>
          (let name1 = (if name = [] then '' '' else name)
           in Some (w\<lparr>stdout := stdout w @
                [Benchmark (toupper (hd name1) # tl name1) filename m
                   (ddiv (elapsed * 1000000000) (real (unat m)))
                   (ddiv (0.000001 * real (unat n) * real (unat m)) elapsed)
                   (hw_results g counts n m)]\<rparr>)))"

subsection \<open>\<^verbatim>\<open>test_utf16le_validate\<close> (lines 233-293)\<close>

text \<open>Lines 24-28: the size handed to the allocator.\<close>

definition memory_allocate :: "bool \<Rightarrow> size_t \<Rightarrow> size_t" where
  "memory_allocate al sz = (if al then (sz + 63) AND NOT 63 else sz)"

text \<open>
  The read loop, lines 258-275.  \<open>bufsize\<close> is the number of bytes allocated;
  the list holds what the successive calls of \<^verbatim>\<open>read\<close> return, and a call after the
  end of the list returns 0 (end of file).  A call that returns \<open>count > 0\<close> has stored
  \<open>count\<close> bytes from offset \<open>n - rem\<close> on; bytes stored beyond the allocation are a heap
  overflow, undefined behaviour.
\<close>

datatype load_result = Load_error | Load_short size_t | Load_overflow | Loaded

fun read_loop :: "size_t \<Rightarrow> size_t \<Rightarrow> size_t \<Rightarrow> ssize_t list \<Rightarrow> load_result" where
  "read_loop bufsize n rem [] = (if rem > 0 then Load_short (n - rem) else Loaded)"
| "read_loop bufsize n rem (count # cs) =
     (if rem > 0 then
        (if sint count < 0 then Load_error
         else if count = 0 then Load_short (n - rem)
         else if unat (n - rem) + unat count > unat bufsize then Load_overflow
         else read_loop bufsize n (rem - count) cs)
      else Loaded)"

text \<open>
  What one call of the test function meets: whether the allocation and \<^verbatim>\<open>open\<close>
  succeed, the results of the reads, the buffer as the routine under test sees it, and
  the environment of its \<^verbatim>\<open>reset_counters\<close>.
\<close>

record test_env =
  malloc_ok :: bool
  open_ok :: bool
  reads :: "ssize_t list"
  data :: "char16_t list"
  snap_test :: snap_env

datatype test_result = Test_ret int counters io | Test_undefined

text \<open>Lines 284-285: \<open>m\<close> calls of the routine, their results added up in \<^verbatim>\<open>sum\<close>.\<close>

definition validate_loop :: "(char16_t list \<Rightarrow> size_t \<Rightarrow> size_t) \<Rightarrow> char16_t list \<Rightarrow> size_t \<Rightarrow> size_t \<Rightarrow> size_t" where
  "validate_loop validate buf len m = ((\<lambda>sum. sum + validate buf len) ^^ unat m) 0"

definition test_utf16le_validate ::
  "globals \<Rightarrow> test_env \<Rightarrow> counters \<Rightarrow> (char16_t list \<Rightarrow> size_t \<Rightarrow> size_t) \<Rightarrow> string \<Rightarrow> size_t \<Rightarrow> size_t
     \<Rightarrow> io \<Rightarrow> test_result" where
  "test_utf16le_validate g e c validate filename n m w =
     (let len = n div 2 in
      if \<not> malloc_ok e then Test_ret (- 1) c (perror ''memory_allocate'' w)
      else if \<not> open_ok e then Test_ret (- 1) c (perror filename w)
      else
        (case read_loop (memory_allocate (ALIGN g) (len * 2)) n n (reads e) of
           Load_error \<Rightarrow> Test_ret (- 1) c (perror filename w)
         | Load_short k \<Rightarrow> Test_ret (- 1) c (w\<lparr>stderr := stderr w @ [Short_file filename k n]\<rparr>)
         | Load_overflow \<Rightarrow> Test_undefined
         | Loaded \<Rightarrow>
             (case reset_counters g (snap_test e) c w of
                (res, c1, w1) \<Rightarrow>
                  if res \<noteq> 0 then Test_ret (- 1) c1 w1
                  else
                    (let sum = validate_loop validate (data e) len m
                     in Test_ret 0 c1
                          (if sum \<noteq> len * m then w1\<lparr>stderr := stderr w1 @ [Warning filename]\<rparr>
                           else w1)))))"

subsection \<open>\<^verbatim>\<open>run_test\<close> (lines 177-231)\<close>

text \<open>The environment of one pass of the loop.\<close>

record pass_env =
  snap_start :: snap_env
  test :: test_env
  snap_end :: snap_env

text \<open>
  Lines 194-210, the measured part of the loop body: the start point, the test (which
  takes the start point again once the file is loaded), the end point.
\<close>

datatype pass_result = Pass_fail io | Pass_undefined | Measured counters counters io

definition run_test_pass ::
  "globals \<Rightarrow> string \<Rightarrow> (char16_t list \<Rightarrow> size_t \<Rightarrow> size_t) \<Rightarrow> string \<Rightarrow> size_t \<Rightarrow> size_t
     \<Rightarrow> counters \<Rightarrow> counters \<Rightarrow> io \<Rightarrow> pass_env \<Rightarrow> pass_result" where
  "run_test_pass g name payload filename n m start endc w p =
     (case reset_counters g (snap_start p) start w of
        (res, start1, w1) \<Rightarrow>
          if res \<noteq> 0 then Pass_fail (print_FAIL name w1)
          else
            (case test_utf16le_validate g (test p) start1 payload filename n m w1 of
               Test_undefined \<Rightarrow> Pass_undefined
             | Test_ret res2 start2 w2 \<Rightarrow>
                 if res2 \<noteq> 0 then Pass_fail (print_FAIL name w2)
                 else
                   (case reset_counters g (snap_end p) endc w2 of
                      (res3, end1, w3) \<Rightarrow>
                        if res3 \<noteq> 0 then Pass_fail (print_FAIL name w3)
                        else Measured start2 end1 w3)))"

text \<open>Lines 212-220: the multiplier of the next pass after a pass that was too short.\<close>

definition next_m :: "double_ops \<Rightarrow> size_t \<Rightarrow> real \<Rightarrow> size_t option" where
  "next_m fp m elapsed =
     (if elapsed < TIME_GOAL * 0.5 then Some (m * 2)
      else
        (case double_to_size_t
                (of_int \<lceil>fdiv fp (fmul fp (fmul fp (fsize fp m) TIME_GOAL) 1.05) elapsed\<rceil>) of
           None \<Rightarrow> None
         | Some newm \<Rightarrow> Some (if newm > m then newm else m + 1)))"

text \<open>
  The loop of lines 187-228, one element of the list per pass.  The list of multipliers
  records the value of \<open>m\<close> with which each pass was started.  \<open>None\<close>: the passes
  listed were all run and the loop is still going.
\<close>

datatype loop_exit =
    Exit_fail io "size_t list"
  | Exit_undefined "size_t list"
  | Accept counters counters size_t io "size_t list"

fun run_test_loop ::
  "double_ops \<Rightarrow> globals \<Rightarrow> string \<Rightarrow> (char16_t list \<Rightarrow> size_t \<Rightarrow> size_t) \<Rightarrow> string \<Rightarrow> size_t \<Rightarrow> size_t \<Rightarrow> bool
     \<Rightarrow> counters \<Rightarrow> counters \<Rightarrow> io \<Rightarrow> size_t list \<Rightarrow> pass_env list \<Rightarrow> loop_exit option" where
  "run_test_loop fp g name payload filename n m first_run start endc w ms [] = None"
| "run_test_loop fp g name payload filename n m first_run start endc w ms (p # ps) =
     (case run_test_pass g name payload filename n m start endc w p of
        Pass_fail w1 \<Rightarrow> Some (Exit_fail w1 (ms @ [m]))
      | Pass_undefined \<Rightarrow> Some (Exit_undefined (ms @ [m]))
      | Measured start1 end1 w1 \<Rightarrow>
          (let elapsed = tsdiff (ts start1) (ts end1) in
           if elapsed < TIME_GOAL then
             (case next_m fp m elapsed of
                None \<Rightarrow> Some (Exit_undefined (ms @ [m]))
              | Some m1 \<Rightarrow>
                  run_test_loop fp g name payload filename n m1 False start1 end1 w1 (ms @ [m]) ps)
           else if \<not> first_run then Some (Accept start1 end1 m w1 (ms @ [m]))
           else run_test_loop fp g name payload filename n m False start1 end1 w1 (ms @ [m]) ps))"

fun passes_of :: "loop_exit \<Rightarrow> size_t list" where
  "passes_of (Exit_fail w ms) = ms"
| "passes_of (Exit_undefined ms) = ms"
| "passes_of (Accept s e m w ms) = ms"

datatype outcome = Finished io | Undefined

definition run_test ::
  "double_ops \<Rightarrow> globals \<Rightarrow> int \<Rightarrow> uint64_t list \<Rightarrow> counters \<Rightarrow> counters \<Rightarrow> string
     \<Rightarrow> (char16_t list \<Rightarrow> size_t \<Rightarrow> size_t) \<Rightarrow> string \<Rightarrow> size_t \<Rightarrow> io \<Rightarrow> pass_env list
     \<Rightarrow> outcome option" where
  "run_test fp g i0 counts0 start0 end0 name payload filename n w ps =
     (case run_test_loop fp g name payload filename n 1 True start0 end0 w [] ps of
        None \<Rightarrow> None
      | Some (Exit_fail w1 ms) \<Rightarrow> Some (Finished w1)
      | Some (Exit_undefined ms) \<Rightarrow> Some Undefined
      | Some (Accept s e m w1 ms) \<Rightarrow>
          (case print_results g i0 counts0 name s e filename n m w1 of
             None \<Rightarrow> Some Undefined
           | Some w2 \<Rightarrow> Some (Finished w2)))"

subsection \<open>The cost of a call\<close>


subsection \<open>Output up to the error stream\<close>






subsection \<open>Example environments\<close>

text \<open>
  Concrete inputs for the examples below.  The operations on doubles are the exact ones
  (on the inputs of the examples the rounded operations of the machine lead to the same
  multipliers).  No counter is open; the file holds four
  bytes, delivered by one call of \<^verbatim>\<open>read\<close>; the clock stands at 10 s when the
  test takes its start point and at \<open>10 s + sec s + nsec ns\<close> at the end point.
\<close>

definition exact_ops :: double_ops where
  "exact_ops = \<lparr>fsize = (\<lambda>m. real (unat m)), fmul = (*), fdiv = (/)\<rparr>"

definition clock_at :: "int \<Rightarrow> int \<Rightarrow> snap_env" where
  "clock_at sec nsec =
     \<lparr>clock_gettime = Some \<lparr>tv_sec = sec, tv_nsec = nsec\<rparr>, read_group = None\<rparr>"

definition example_test_env :: test_env where
  "example_test_env =
     \<lparr>malloc_ok = True, open_ok = True, reads = [4], data = [65, 66],
      snap_test = clock_at 10 0\<rparr>"

definition example_pass :: "int \<Rightarrow> int \<Rightarrow> pass_env" where
  "example_pass sec nsec =
     \<lparr>snap_start = clock_at 9 0, test = example_test_env, snap_end = clock_at (10 + sec) nsec\<rparr>"

text \<open>The same pass with the test's start point taken at \<open>t\<close> seconds.\<close>

definition example_test_env_at :: "int \<Rightarrow> test_env" where
  "example_test_env_at t =
     \<lparr>malloc_ok = True, open_ok = True, reads = [4], data = [65, 66],
      snap_test = clock_at t 0\<rparr>"

definition example_pass_at :: "int \<Rightarrow> int \<Rightarrow> int \<Rightarrow> pass_env" where
  "example_pass_at t sec nsec =
     \<lparr>snap_start = clock_at (t - 1) 0, test = example_test_env_at t,
      snap_end = clock_at (t + sec) nsec\<rparr>"

definition example_counters :: counters where
  "example_counters = \<lparr>ts = \<lparr>tv_sec = 0, tv_nsec = 0\<rparr>, counters = [0, 0, 0, 0, 0]\<rparr>"

definition example_io :: io where
  "example_io = \<lparr>stdout = [], stderr = []\<rparr>"

text \<open>A routine that accepts every code unit, and one that accepts none.\<close>

definition accept_all :: "char16_t list \<Rightarrow> size_t \<Rightarrow> size_t" where
  "accept_all buf len = len"


text \<open>
  Both counters open (file descriptors 3 and 4, 3 leading the group), and two group
  reads in the layout \<^verbatim>\<open>PERF_FORMAT_GROUP | PERF_FORMAT_ID\<close> writes them: the number of
  counters, then a value and an id per counter.  Between the two reads the cycle counter
  goes from 100 to 150 and the instruction counter from 200 to 260.
\<close>

definition example_globals_open :: globals where
  "example_globals_open =
     \<lparr>ALIGN = False, event_group = 3, num_counters = 2, events_fd = [3, 4]\<rparr>"

definition example_start :: counters where
  "example_start = \<lparr>ts = \<lparr>tv_sec = 10, tv_nsec = 0\<rparr>, counters = [2, 100, 1, 200, 2]\<rparr>"

definition example_end :: counters where
  "example_end =
     \<lparr>ts = \<lparr>tv_sec = 12, tv_nsec = 500000000\<rparr>, counters = [2, 150, 1, 260, 2]\<rparr>"

text \<open>
  A file of three bytes delivered by one call of \<^verbatim>\<open>read\<close>, and a file that is
  declared with 4096 bytes but ends after 2048.
\<close>

definition example_odd_test :: test_env where
  "example_odd_test =
     \<lparr>malloc_ok = True, open_ok = True, reads = [3], data = [65], snap_test = clock_at 10 0\<rparr>"

definition example_odd_pass :: pass_env where
  "example_odd_pass =
     \<lparr>snap_start = clock_at 9 0, test = example_odd_test, snap_end = clock_at 12 0\<rparr>"

definition example_short_test :: test_env where
  "example_short_test =
     \<lparr>malloc_ok = True, open_ok = True, reads = [2048, 0], data = [],
      snap_test = clock_at 10 0\<rparr>"

definition example_short_pass :: pass_env where
  "example_short_pass =
     \<lparr>snap_start = clock_at 9 0, test = example_short_test, snap_end = clock_at 12 0\<rparr>"

section \<open>Properties\<close>

subsection \<open>The loop, pass by pass\<close>

lemma tsdiff_exact:
  "tsdiff a b = real_of_int (tv_sec b - tv_sec a) + real_of_int (tv_nsec b - tv_nsec a) / 1000000000"
  by (simp add: tsdiff_def Let_def field_simps)

lemma loop_step_fail:
  "run_test_pass g name payload filename n m start endc w p = Pass_fail w1 \<Longrightarrow>
   run_test_loop fp g name payload filename n m first_run start endc w ms (p # ps) =
     Some (Exit_fail w1 (ms @ [m]))"
  by simp

lemma loop_step_undefined:
  "run_test_pass g name payload filename n m start endc w p = Pass_undefined \<Longrightarrow>
   run_test_loop fp g name payload filename n m first_run start endc w ms (p # ps) =
     Some (Exit_undefined (ms @ [m]))"
  by simp

lemma loop_step_short:
  "run_test_pass g name payload filename n m start endc w p = Measured s1 e1 w1 \<Longrightarrow>
   tsdiff (ts s1) (ts e1) < TIME_GOAL \<Longrightarrow>
   run_test_loop fp g name payload filename n m first_run start endc w ms (p # ps) =
     (case next_m fp m (tsdiff (ts s1) (ts e1)) of
        None \<Rightarrow> Some (Exit_undefined (ms @ [m]))
      | Some m1 \<Rightarrow> run_test_loop fp g name payload filename n m1 False s1 e1 w1 (ms @ [m]) ps)"
  by (simp add: Let_def)

lemma loop_step_warm_up:
  "run_test_pass g name payload filename n m start endc w p = Measured s1 e1 w1 \<Longrightarrow>
   \<not> tsdiff (ts s1) (ts e1) < TIME_GOAL \<Longrightarrow>
   run_test_loop fp g name payload filename n m True start endc w ms (p # ps) =
     run_test_loop fp g name payload filename n m False s1 e1 w1 (ms @ [m]) ps"
  by (simp add: Let_def)

lemma loop_step_accept:
  "run_test_pass g name payload filename n m start endc w p = Measured s1 e1 w1 \<Longrightarrow>
   \<not> tsdiff (ts s1) (ts e1) < TIME_GOAL \<Longrightarrow>
   run_test_loop fp g name payload filename n m False start endc w ms (p # ps) =
     Some (Accept s1 e1 m w1 (ms @ [m]))"
  by (simp add: Let_def)

declare run_test_loop.simps(2) [simp del]

lemma run_test_loop_accept_elapsed:
  "run_test_loop fp g name payload filename n m first_run start endc w ms ps = Some (Accept s e m' w' ms')
   \<Longrightarrow> TIME_GOAL \<le> tsdiff (ts s) (ts e)"
proof (induction ps arbitrary: m first_run start endc w ms)
  case Nil
  then show ?case by simp
next
  case (Cons p ps)
  show ?case
  proof (cases "run_test_pass g name payload filename n m start endc w p")
    case (Pass_fail w1)
    with Cons.prems show ?thesis by (simp add: loop_step_fail)
  next
    case Pass_undefined
    with Cons.prems show ?thesis by (simp add: loop_step_undefined)
  next
    case (Measured s1 e1 w1)
    show ?thesis
    proof (cases "tsdiff (ts s1) (ts e1) < TIME_GOAL")
      case True
      with Cons.prems Measured show ?thesis
        by (auto simp: loop_step_short split: option.splits dest: Cons.IH)
    next
      case False
      with Cons.prems Measured show ?thesis
        by (cases first_run) (auto simp: loop_step_warm_up loop_step_accept dest: Cons.IH)
    qed
  qed
qed

lemma run_test_loop_trace:
  "run_test_loop fp g name payload filename n m first_run start endc w ms ps = Some r
   \<Longrightarrow> \<exists>ys. passes_of r = ms @ m # ys \<and> length (m # ys) \<le> length ps"
proof (induction ps arbitrary: m first_run start endc w ms)
  case Nil
  then show ?case by simp
next
  case (Cons p ps)
  show ?case
  proof (cases "run_test_pass g name payload filename n m start endc w p")
    case (Pass_fail w1)
    with Cons.prems show ?thesis by (auto simp: loop_step_fail)
  next
    case Pass_undefined
    with Cons.prems show ?thesis by (auto simp: loop_step_undefined)
  next
    case (Measured s1 e1 w1)
    show ?thesis
    proof (cases "tsdiff (ts s1) (ts e1) < TIME_GOAL")
      case True
      with Cons.prems Measured show ?thesis
        by (fastforce simp: loop_step_short split: option.splits dest: Cons.IH)
    next
      case False
      with Cons.prems Measured show ?thesis
        by (cases first_run) (fastforce simp: loop_step_warm_up loop_step_accept dest: Cons.IH)+
    qed
  qed
qed

lemma run_test_loop_accept_trace:
  "run_test_loop fp g name payload filename n m first_run start endc w ms ps = Some (Accept s e m' w' ms')
   \<Longrightarrow> length ms + (if first_run then 2 else 1) \<le> length ms' \<and> last ms' = m'"
proof (induction ps arbitrary: m first_run start endc w ms)
  case Nil
  then show ?case by simp
next
  case (Cons p ps)
  show ?case
  proof (cases "run_test_pass g name payload filename n m start endc w p")
    case (Pass_fail w1)
    with Cons.prems show ?thesis by (simp add: loop_step_fail)
  next
    case Pass_undefined
    with Cons.prems show ?thesis by (simp add: loop_step_undefined)
  next
    case (Measured s1 e1 w1)
    show ?thesis
    proof (cases "tsdiff (ts s1) (ts e1) < TIME_GOAL")
      case True
      with Cons.prems Measured show ?thesis
        by (fastforce simp: loop_step_short split: option.splits dest: Cons.IH)
    next
      case False
      with Cons.prems Measured show ?thesis
        by (cases first_run) (fastforce simp: loop_step_warm_up loop_step_accept dest: Cons.IH)+
    qed
  qed
qed

subsection \<open>The multiplier of the next pass\<close>

lemma next_m_doubling:
  "elapsed < TIME_GOAL / 2 \<Longrightarrow> next_m fp m elapsed = Some (2 * m)"
  by (simp add: next_m_def mult.commute)

lemma double_to_size_t_of_int:
  "0 \<le> c \<Longrightarrow> c < 2 ^ 64 \<Longrightarrow> double_to_size_t (of_int c) = Some (word_of_int c)"
  by (simp add: double_to_size_t_def)

lemma unat_word_of_int_64:
  assumes "0 \<le> c" "c < 2 ^ 64"
  shows "unat (word_of_int c :: 64 word) = nat c"
proof -
  have "uint (word_of_int c :: 64 word) = c mod 2 ^ 64"
    by (simp only: uint_word_of_int len_of_numeral_defs) simp
  also have "\<dots> = c" using assms by (rule mod_pos_pos_trivial)
  finally show ?thesis by (simp only: unat_eq_nat_uint)
qed




lemma unat_Suc_64:
  assumes "unat (m :: 64 word) < 2 ^ 64 - 1"
  shows "unat (m + 1) = unat m + 1"
proof -
  have one: "unat (1 :: 64 word) = 1" by simp
  from assms have "unat m + unat (1 :: 64 word) < 2 ^ LENGTH(64)" unfolding one by simp
  then have "unat (m + 1) = unat m + unat (1 :: 64 word)" by (rule unat_add_lem [THEN iffD1])
  then show ?thesis unfolding one .
qed

lemma next_m_unfold:
  "\<not> elapsed < TIME_GOAL * 0.5 \<Longrightarrow>
   double_to_size_t
     (of_int \<lceil>fdiv fp (fmul fp (fmul fp (fsize fp m) TIME_GOAL) 1.05) elapsed\<rceil>) = Some newm \<Longrightarrow>
   next_m fp m elapsed = Some (if newm > m then newm else m + 1)"
  unfolding next_m_def by (simp only: if_False option.case)

lemma next_m_estimate:
  assumes e: "\<not> elapsed < TIME_GOAL / 2"
    and c0: "0 \<le> \<lceil>fdiv fp (fmul fp (fmul fp (fsize fp m) TIME_GOAL) 1.05) elapsed\<rceil>"
    and fits: "\<lceil>fdiv fp (fmul fp (fmul fp (fsize fp m) TIME_GOAL) 1.05) elapsed\<rceil> < 2 ^ 64"
    and m: "unat m < 2 ^ 64 - 1"
  shows "\<exists>m1. next_m fp m elapsed = Some m1 \<and>
           unat m1 =
             max (unat m + 1)
               (nat \<lceil>fdiv fp (fmul fp (fmul fp (fsize fp m) TIME_GOAL) 1.05) elapsed\<rceil>)"
proof -
  define c where "c = \<lceil>fdiv fp (fmul fp (fmul fp (fsize fp m) TIME_GOAL) 1.05) elapsed\<rceil>"
  have c0': "0 \<le> c" using c0 by (simp only: c_def)
  have c64: "c < 2 ^ 64" using fits by (simp only: c_def)
  have conv: "double_to_size_t (of_int c) = Some (word_of_int c)"
    using c0' c64 by (rule double_to_size_t_of_int)
  have un: "unat (word_of_int c :: 64 word) = nat c"
    using c0' c64 by (rule unat_word_of_int_64)
  have half: "\<not> elapsed < TIME_GOAL * 0.5" using e by simp
  have nm: "next_m fp m elapsed =
      Some (if (word_of_int c :: 64 word) > m then word_of_int c else m + 1)"
    using half conv unfolding c_def by (rule next_m_unfold)
  have "\<exists>m1. next_m fp m elapsed = Some m1 \<and> unat m1 = max (unat m + 1) (nat c)"
  proof (cases "unat m < nat c")
    case True
    then have "unat m < unat (word_of_int c :: 64 word)" by (simp only: un)
    then have "m < word_of_int c" by (simp only: word_less_nat_alt)
    with nm have "next_m fp m elapsed = Some (word_of_int c)" by (simp only: if_True)
    moreover have "unat (word_of_int c :: 64 word) = max (unat m + 1) (nat c)"
      using True un by linarith
    ultimately show ?thesis by blast
  next
    case False
    then have "\<not> unat m < unat (word_of_int c :: 64 word)" by (simp only: un simp_thms)
    then have "\<not> m < word_of_int c" by (simp only: word_less_nat_alt simp_thms)
    with nm have "next_m fp m elapsed = Some (m + 1)" by (simp only: if_False)
    moreover have "unat (m + 1) = max (unat m + 1) (nat c)"
      using False unat_Suc_64 [OF m] by linarith
    ultimately show ?thesis by blast
  qed
  then show ?thesis by (simp only: c_def)
qed



subsection \<open>Evaluation on the example environments\<close>

lemma funpow_add_const:
  "((\<lambda>s. s + a) ^^ k) z = z + of_nat k * (a :: 64 word)"
  by (induction k arbitrary: z) (simp_all add: algebra_simps)

lemma validate_loop_eq:
  "validate_loop validate buf len m = m * validate buf len"
  unfolding validate_loop_def funpow_add_const by simp

lemma memory_allocate_4: "memory_allocate False 4 = 4"
  by (simp add: memory_allocate_def)

lemma read_loop_example: "read_loop 4 4 4 [4] = Loaded"
  by simp


lemma reset_counters_example:
  "reset_counters (initial_globals al) (clock_at sec nsec) c w =
     (0, c\<lparr>ts := \<lparr>tv_sec = sec, tv_nsec = nsec\<rparr>\<rparr>, w)"
  by (simp add: reset_counters_def initial_globals_def clock_at_def)

lemma test_example:
  "test_utf16le_validate (initial_globals False) example_test_env c accept_all filename 4 m w =
     Test_ret 0 (c\<lparr>ts := \<lparr>tv_sec = 10, tv_nsec = 0\<rparr>\<rparr>) w"
proof -
  have a: "ALIGN (initial_globals False) = False" by (simp add: initial_globals_def)
  have b: "(4 :: 64 word) div 2 = 2" by simp
  show ?thesis
    unfolding test_utf16le_validate_def Let_def b a
    by (simp add: example_test_env_def memory_allocate_4 reset_counters_example validate_loop_eq accept_all_def)
qed

lemma example_pass_measured:
  "run_test_pass (initial_globals False) name accept_all filename 4 m start endc w (example_pass sec nsec) =
     Measured (start\<lparr>ts := \<lparr>tv_sec = 10, tv_nsec = 0\<rparr>\<rparr>)
       (endc\<lparr>ts := \<lparr>tv_sec = 10 + sec, tv_nsec = nsec\<rparr>\<rparr>) w"
  by (simp add: run_test_pass_def example_pass_def reset_counters_example test_example)

lemma tsdiff_example:
  "0 \<le> nsec \<Longrightarrow>
   tsdiff \<lparr>tv_sec = 10, tv_nsec = 0\<rparr> \<lparr>tv_sec = 10 + sec, tv_nsec = nsec\<rparr> =
     real_of_int sec + real_of_int nsec / 1000000000"
  by (simp add: tsdiff_def)

subsection \<open>Claims about the adaptive loop\<close>

lemma next_m_example_half: "next_m exact_ops 1 (1 / 2) = Some 2"
  by (simp add: next_m_def TIME_GOAL_def)

lemma example_estimate:
  "\<lceil>fdiv exact_ops (fmul exact_ops (fmul exact_ops (fsize exact_ops 1) TIME_GOAL) 1.05) (3 / 2)\<rceil> = 2"
  by (simp add: exact_ops_def TIME_GOAL_def ceiling_eq_iff)

lemma next_m_example_estimate: "next_m exact_ops 1 (3 / 2) = Some 2"
proof -
  have conv: "double_to_size_t (of_int 2) = Some 2"
    by (simp add: double_to_size_t_def)
  have half: "\<not> (3 / 2 :: real) < TIME_GOAL * 0.5" by (simp add: TIME_GOAL_def)
  have "double_to_size_t (of_int
      \<lceil>fdiv exact_ops (fmul exact_ops (fmul exact_ops (fsize exact_ops 1) TIME_GOAL) 1.05) (3 / 2)\<rceil>) =
        Some 2"
    unfolding example_estimate by (rule conv)
  from next_m_unfold [OF half this] show ?thesis by simp
qed

lemma example_run_long_long:
  "run_test_loop exact_ops (initial_globals False) ''ref'' accept_all ''f'' 4 1 True
     example_counters example_counters example_io []
     [example_pass 2 500000000, example_pass 2 500000000] =
   Some (Accept (example_counters\<lparr>ts := \<lparr>tv_sec = 10, tv_nsec = 0\<rparr>\<rparr>)
           (example_counters\<lparr>ts := \<lparr>tv_sec = 12, tv_nsec = 500000000\<rparr>\<rparr>)
           1 example_io [1, 1])"
  by (simp add: run_test_loop.simps(2) example_pass_measured tsdiff_def TIME_GOAL_def)

lemma example_run_half_long:
  "run_test_loop exact_ops (initial_globals False) ''ref'' accept_all ''f'' 4 1 True
     example_counters example_counters example_io []
     [example_pass 0 500000000, example_pass 2 500000000] =
   Some (Accept (example_counters\<lparr>ts := \<lparr>tv_sec = 10, tv_nsec = 0\<rparr>\<rparr>)
           (example_counters\<lparr>ts := \<lparr>tv_sec = 12, tv_nsec = 500000000\<rparr>\<rparr>)
           2 example_io [1, 2])"
  by (simp add: run_test_loop.simps(2) example_pass_measured tsdiff_def TIME_GOAL_def
      next_m_example_half)

text \<open>
  C4.  Whenever the loop accepts a pass, the elapsed time of that pass, the difference of
  the end point and the start point that are handed to \<^verbatim>\<open>print_results\<close>, is at
  least \<^verbatim>\<open>TIME_GOAL\<close>; \<^verbatim>\<open>tsdiff\<close> is the difference of the two times in seconds,
  whether or not the nanoseconds borrow.
\<close>

theorem accepted_pass_reaches_TIME_GOAL:
  assumes "run_test_loop fp g name payload filename n m first_run start endc w ms ps =
             Some (Accept s e m' w' ms')"
  shows "TIME_GOAL \<le> tsdiff (ts s) (ts e) \<and>
         tsdiff (ts s) (ts e) =
           real_of_int (tv_sec (ts e) - tv_sec (ts s)) +
           real_of_int (tv_nsec (ts e) - tv_nsec (ts s)) / 1000000000"
  using run_test_loop_accept_elapsed [OF assms] tsdiff_exact by blast

theorem accepted_pass_reaches_TIME_GOAL_witness:
  "run_test_loop exact_ops (initial_globals False) ''ref'' accept_all ''f'' 4 1 True
     example_counters example_counters example_io []
     [example_pass 0 500000000, example_pass 2 500000000] =
   Some (Accept (example_counters\<lparr>ts := \<lparr>tv_sec = 10, tv_nsec = 0\<rparr>\<rparr>)
           (example_counters\<lparr>ts := \<lparr>tv_sec = 12, tv_nsec = 500000000\<rparr>\<rparr>)
           2 example_io [1, 2]) \<and>
   TIME_GOAL \<le> tsdiff \<lparr>tv_sec = 10, tv_nsec = 0\<rparr> \<lparr>tv_sec = 12, tv_nsec = 500000000\<rparr> \<and>
   tsdiff \<lparr>tv_sec = 10, tv_nsec = 0\<rparr> \<lparr>tv_sec = 12, tv_nsec = 500000000\<rparr> = 5 / 2"
  using accepted_pass_reaches_TIME_GOAL [OF example_run_half_long] example_run_half_long
  by simp

lemma reset_counters_stdout:
  "reset_counters g e c w = (res, c1, w1) \<Longrightarrow> stdout w1 = stdout w"
  by (auto simp: reset_counters_def perror_def Let_def split: option.splits if_splits)

lemma test_utf16le_validate_stdout:
  assumes "test_utf16le_validate g e c validate filename n m w = Test_ret res c1 w1"
  shows "stdout w1 = stdout w"
proof (cases "malloc_ok e \<and> open_ok e")
  case False
  with assms show ?thesis
    by (auto simp: test_utf16le_validate_def perror_def Let_def split: if_splits)
next
  case True
  show ?thesis
  proof (cases "read_loop (memory_allocate (ALIGN g) (n div 2 * 2)) n n (reads e)")
    case Load_error
    with assms True show ?thesis
      by (auto simp: test_utf16le_validate_def perror_def Let_def)
  next
    case (Load_short k)
    with assms True show ?thesis
      by (auto simp: test_utf16le_validate_def Let_def)
  next
    case Load_overflow
    with assms True show ?thesis
      by (auto simp: test_utf16le_validate_def Let_def)
  next
    case Loaded
    obtain r c2 w2 where rc: "reset_counters g (snap_test e) c w = (r, c2, w2)"
      by (cases "reset_counters g (snap_test e) c w") auto
    from reset_counters_stdout [OF rc] have "stdout w2 = stdout w" .
    with assms True Loaded rc show ?thesis
      by (auto simp: test_utf16le_validate_def Let_def split: if_splits)
  qed
qed

lemma run_test_pass_stdout:
  assumes "run_test_pass g name payload filename n m start endc w p = Measured s1 e1 w1"
  shows "stdout w1 = stdout w"
proof -
  obtain r1 c1 v1 where a: "reset_counters g (snap_start p) start w = (r1, c1, v1)"
    by (cases "reset_counters g (snap_start p) start w") auto
  show ?thesis
  proof (cases "test_utf16le_validate g (test p) c1 payload filename n m v1")
    case Test_undefined
    with assms a show ?thesis by (auto simp: run_test_pass_def split: if_splits)
  next
    case (Test_ret r2 c2 v2)
    obtain r3 c3 v3 where b: "reset_counters g (snap_end p) endc v2 = (r3, c3, v3)"
      by (cases "reset_counters g (snap_end p) endc v2") auto
    from assms a Test_ret b have "w1 = v3"
      by (auto simp: run_test_pass_def split: if_splits)
    with reset_counters_stdout [OF a] test_utf16le_validate_stdout [OF Test_ret]
      reset_counters_stdout [OF b]
    show ?thesis by simp
  qed
qed


text \<open>
  The multiplier is a \<^verbatim>\<open>size_t\<close> and is never range-checked.  In an environment
  whose clock does not advance during a pass, every pass takes no measured time and the
  multiplier is doubled; after 64 such passes \<^verbatim>\<open>m *= 2\<close> has wrapped to 0.  Such a
  run would need passes of \<open>2 ^ 62\<close> and \<open>2 ^ 63\<close> calls that take no time; a lower
  bound on the cost of a call (\<open>costs_at_least\<close>) excludes it.
\<close>

lemma next_m_zero: "next_m fp m 0 = Some (m * 2)"
  unfolding next_m_def by (simp add: TIME_GOAL_def)

lemma example_quick_step:
  "run_test_loop exact_ops (initial_globals False) name accept_all filename 4 m first_run start endc w ms
     (example_pass 0 0 # rest) =
   run_test_loop exact_ops (initial_globals False) name accept_all filename 4 (m * 2) False
     (start\<lparr>ts := \<lparr>tv_sec = 10, tv_nsec = 0\<rparr>\<rparr>) (endc\<lparr>ts := \<lparr>tv_sec = 10, tv_nsec = 0\<rparr>\<rparr>)
     w (ms @ [m]) rest"
proof -
  have p: "run_test_pass (initial_globals False) name accept_all filename 4 m start endc w
      (example_pass 0 0) =
    Measured (start\<lparr>ts := \<lparr>tv_sec = 10, tv_nsec = 0\<rparr>\<rparr>)
      (endc\<lparr>ts := \<lparr>tv_sec = 10, tv_nsec = 0\<rparr>\<rparr>) w"
    using example_pass_measured [of name filename m start endc w 0 0] by simp
  have t: "tsdiff (ts (start\<lparr>ts := \<lparr>tv_sec = 10, tv_nsec = 0\<rparr>\<rparr>))
      (ts (endc\<lparr>ts := \<lparr>tv_sec = 10, tv_nsec = 0\<rparr>\<rparr>)) = 0"
    by (simp add: tsdiff_def)
  have short: "tsdiff (ts (start\<lparr>ts := \<lparr>tv_sec = 10, tv_nsec = 0\<rparr>\<rparr>))
      (ts (endc\<lparr>ts := \<lparr>tv_sec = 10, tv_nsec = 0\<rparr>\<rparr>)) < TIME_GOAL"
    unfolding t by (simp add: TIME_GOAL_def)
  show ?thesis
    unfolding loop_step_short [OF p short] t next_m_zero by (simp only: option.case)
qed

lemma example_quick_steps:
  "run_test_loop exact_ops (initial_globals False) name accept_all filename 4 m first_run start endc w ms
     (replicate (Suc k) (example_pass 0 0) @ rest) =
   run_test_loop exact_ops (initial_globals False) name accept_all filename 4 (m * 2 ^ Suc k) False
     (start\<lparr>ts := \<lparr>tv_sec = 10, tv_nsec = 0\<rparr>\<rparr>) (endc\<lparr>ts := \<lparr>tv_sec = 10, tv_nsec = 0\<rparr>\<rparr>)
     w (ms @ map (\<lambda>i. m * 2 ^ i) [0..<Suc k]) rest"
proof (induction k arbitrary: rest)
  case 0
  show ?case using example_quick_step [of name filename m first_run start endc w ms rest]
    by simp
next
  case (Suc k)
  have split: "replicate (Suc (Suc k)) (example_pass 0 0) @ rest =
      replicate (Suc k) (example_pass 0 0) @ (example_pass 0 0 # rest)"
    by (simp add: replicate_app_Cons_same)
  have upt: "map (\<lambda>i. m * 2 ^ i) [0..<Suc (Suc k)] =
      map (\<lambda>i. m * 2 ^ i) [0..<Suc k] @ [m * 2 ^ Suc k]"
    by simp
  have pow: "m * 2 ^ Suc k * 2 = m * 2 ^ Suc (Suc k)"
    by (simp add: mult.assoc mult.commute)
  show ?case
    unfolding split Suc.IH example_quick_step upt pow by simp
qed


lemma example_accept_step:
  "run_test_loop exact_ops (initial_globals False) name accept_all filename 4 m False start endc w ms
     [example_pass 2 0] =
   Some (Accept (start\<lparr>ts := \<lparr>tv_sec = 10, tv_nsec = 0\<rparr>\<rparr>)
     (endc\<lparr>ts := \<lparr>tv_sec = 12, tv_nsec = 0\<rparr>\<rparr>) m w (ms @ [m]))"
proof -
  have p: "run_test_pass (initial_globals False) name accept_all filename 4 m start endc w
      (example_pass 2 0) =
    Measured (start\<lparr>ts := \<lparr>tv_sec = 10, tv_nsec = 0\<rparr>\<rparr>)
      (endc\<lparr>ts := \<lparr>tv_sec = 12, tv_nsec = 0\<rparr>\<rparr>) w"
    using example_pass_measured [of name filename m start endc w 2 0] by simp
  have t: "\<not> tsdiff (ts (start\<lparr>ts := \<lparr>tv_sec = 10, tv_nsec = 0\<rparr>\<rparr>))
      (ts (endc\<lparr>ts := \<lparr>tv_sec = 12, tv_nsec = 0\<rparr>\<rparr>)) < TIME_GOAL"
    by (simp add: tsdiff_def TIME_GOAL_def)
  show ?thesis by (rule loop_step_accept [OF p t])
qed

lemma example_wrapping_run:
  "run_test_loop exact_ops (initial_globals False) ''ref'' accept_all ''f'' 4 1 True
     example_counters example_counters example_io []
     (replicate 64 (example_pass 0 0) @ [example_pass 2 0]) =
   Some (Accept (example_counters\<lparr>ts := \<lparr>tv_sec = 10, tv_nsec = 0\<rparr>\<rparr>)
     (example_counters\<lparr>ts := \<lparr>tv_sec = 12, tv_nsec = 0\<rparr>\<rparr>) 0 example_io
     (map (\<lambda>i. 2 ^ i) [0..<64] @ [0]))"
proof -
  have n: "(64 :: nat) = Suc 63" by simp
  have z: "(1 :: 64 word) * 2 ^ Suc 63 = 0" by simp
  have l: "[] @ map (\<lambda>i. (1 :: 64 word) * 2 ^ i) [0..<Suc 63] = map (\<lambda>i. 2 ^ i) [0..<64]"
    by (simp only: n append_Nil mult_1)
  show ?thesis
    unfolding n example_quick_steps z l [unfolded n] example_accept_step
    by simp
qed

lemma trace_not_sorted:
  "\<not> sorted (map (\<lambda>i. 2 ^ i) [0..<64] @ [0 :: 64 word])"
proof
  assume "sorted (map (\<lambda>i. 2 ^ i) [0..<64] @ [0 :: 64 word])"
  then have "\<forall>x\<in>set (map (\<lambda>i. 2 ^ i) [0..<64]). \<forall>y\<in>set [0 :: 64 word]. x \<le> y"
    unfolding sorted_append by blast
  then have a: "\<forall>x\<in>set (map (\<lambda>i. 2 ^ i) [0..<64]). x \<le> (0 :: 64 word)"
    by (metis list.set_intros(1))
  have "(2 :: 64 word) ^ 63 \<in> set (map (\<lambda>i. 2 ^ i) [0..<64])"
    by (simp only: set_map set_upt) (rule imageI, simp)
  with a have "(2 :: 64 word) ^ 63 \<le> 0" by blast
  then show False by simp
qed


declare counterdiff_loop.simps [simp del]
declare init_counters_loop.simps [simp del]

lemma throughput_round_trip:
  fixes x y e :: real
  shows "e \<noteq> 0 \<Longrightarrow> 0.000001 * x * y / e * e * 1000000 = x * y"
  by simp

lemma print_results_line:
  assumes "print_results g i0 counts0 name s e filename n m w = Some w'"
  shows "\<exists>counts. counterdiff g i0 counts0 (counters s) (counters e) = Some counts \<and>
     stdout w' = stdout w @
       [Benchmark (toupper (hd (if name = [] then '' '' else name)) #
            tl (if name = [] then '' '' else name)) filename m
          (ddiv (tsdiff (ts s) (ts e) * 1000000000) (real (unat m)))
          (ddiv (0.000001 * real (unat n) * real (unat m)) (tsdiff (ts s) (ts e)))
          (hw_results g counts n m)] \<and>
     stderr w' = stderr w"
proof (cases "counterdiff g i0 counts0 (counters s) (counters e)")
  case None
  with assms show ?thesis by (simp add: print_results_def)
next
  case (Some counts)
  with assms have "w' = w\<lparr>stdout := stdout w @
       [Benchmark (toupper (hd (if name = [] then '' '' else name)) #
            tl (if name = [] then '' '' else name)) filename m
          (ddiv (tsdiff (ts s) (ts e) * 1000000000) (real (unat m)))
          (ddiv (0.000001 * real (unat n) * real (unat m)) (tsdiff (ts s) (ts e)))
          (hw_results g counts n m)]\<rparr>"
    unfolding print_results_def Let_def by (simp only: option.case option.inject)
  then show ?thesis using Some by simp
qed


lemma initial_globals_simps:
  "ALIGN (initial_globals al) = al"
  "event_group (initial_globals al) = - 1"
  "num_counters (initial_globals al) = 0"
  "events_fd (initial_globals al) = [- 1, - 1]"
  by (simp_all add: initial_globals_def)

lemma counterdiff_loop_done:
  "EVENT_COUNT \<le> i \<Longrightarrow> counterdiff_loop fds i j out start endc = Some out"
  by (subst counterdiff_loop.simps) simp

lemma counterdiff_none_open:
  "counterdiff (initial_globals al) 0 [a, b] start endc = Some [0, 0]"
proof -
  have 2: "counterdiff_loop [- 1, - 1] 2 0 [0, 0] start endc = Some [0, 0]"
    by (rule counterdiff_loop_done) (simp add: EVENT_COUNT_def)
  have 1: "counterdiff_loop [- 1, - 1] 1 0 [0, b] start endc = Some [0, 0]"
    by (subst counterdiff_loop.simps) (simp add: EVENT_COUNT_def 2)
  have 0: "counterdiff_loop [- 1, - 1] 0 0 [a, b] start endc = Some [0, 0]"
    by (subst counterdiff_loop.simps) (simp add: EVENT_COUNT_def 1)
  show ?thesis by (simp add: counterdiff_def initial_globals_def 0)
qed

lemma toupper_r: "toupper (CHR ''r'') = CHR ''R''"
  by code_simp

lemma print_results_example:
  "print_results (initial_globals False) 0 [0, 0] ''ref''
     (example_counters\<lparr>ts := \<lparr>tv_sec = 10, tv_nsec = 0\<rparr>\<rparr>)
     (example_counters\<lparr>ts := \<lparr>tv_sec = 12, tv_nsec = 500000000\<rparr>\<rparr>)
     ''f'' 4 2 example_io =
   Some \<lparr>stdout = [Benchmark ''Ref'' ''f'' 2 (Fin 1250000000) (Fin (8 / 2500000)) None],
         stderr = []\<rparr>"
  by (simp add: print_results_def counterdiff_none_open tsdiff_def ddiv_def hw_results_def
      initial_globals_simps EVENT_COUNT_def example_io_def Let_def toupper_r)

text \<open>
  C6.  For an accepted pass with elapsed time \<open>e\<close>, multiplier \<open>m\<close> and byte length
  \<open>n\<close>, the line printed holds \<open>e * 1e9 / m\<close> as ns/op (a division by \<open>m = 0\<close>,
  possible only after \<open>m\<close> has wrapped, is not finite) and \<open>1e-6 * n * m / e\<close> as MB/s,
  where \<open>n * m\<close> is the product of the two numbers as doubles, not the wrapping product
  of two \<^verbatim>\<open>size_t\<close>; hence throughput times \<open>e\<close> times \<open>1e6\<close> is \<open>n * m\<close>.
  Doubles are idealised as reals, so the identity is exact.
\<close>

theorem reported_metrics_round_trip:
  assumes acc: "run_test_loop fp g name payload filename n m0 first_run start endc w0 ms0 ps =
                  Some (Accept s e m w ms)"
    and pr: "print_results g i0 counts0 name s e filename n m w = Some w'"
  shows "ns_per_op (last (stdout w')) =
           ddiv (tsdiff (ts s) (ts e) * 1000000000) (real (unat m)) \<and>
         (m \<noteq> 0 \<longrightarrow>
            ns_per_op (last (stdout w')) =
              Fin (tsdiff (ts s) (ts e) * 1000000000 / real (unat m))) \<and>
         MB_per_s (last (stdout w')) =
           Fin (0.000001 * real (unat n) * real (unat m) / tsdiff (ts s) (ts e)) \<and>
         0.000001 * real (unat n) * real (unat m) / tsdiff (ts s) (ts e) *
           tsdiff (ts s) (ts e) * 1000000 = real (unat n) * real (unat m)"
proof -
  define t where "t = tsdiff (ts s) (ts e)"
  define x where "x = real (unat n)"
  define y where "y = real (unat m)"
  from run_test_loop_accept_elapsed [OF acc] have "TIME_GOAL \<le> t" by (simp only: t_def)
  then have t0: "t \<noteq> 0" by (simp add: TIME_GOAL_def)
  from print_results_line [OF pr] obtain counts where
    line: "stdout w' = stdout w @
       [Benchmark (toupper (hd (if name = [] then '' '' else name)) #
            tl (if name = [] then '' '' else name)) filename m
          (ddiv (t * 1000000000) y) (ddiv (0.000001 * x * y) t) (hw_results g counts n m)]"
    unfolding t_def x_def y_def by blast
  have ns: "ns_per_op (last (stdout w')) = ddiv (t * 1000000000) y"
    unfolding line by simp
  have mb: "MB_per_s (last (stdout w')) = Fin (0.000001 * x * y / t)"
    unfolding line using t0 by (simp add: ddiv_def)
  have nz: "ns_per_op (last (stdout w')) = Fin (t * 1000000000 / y)" if "m \<noteq> 0"
  proof -
    from that have "unat m \<noteq> 0" by (simp only: unat_eq_zero simp_thms)
    then have "y \<noteq> 0" unfolding y_def by (simp only: of_nat_eq_0_iff simp_thms)
    then show ?thesis unfolding ns by (simp only: ddiv_def if_False)
  qed
  have rt: "0.000001 * x * y / t * t * 1000000 = x * y"
    using t0 by (rule throughput_round_trip)
  from ns nz mb rt show ?thesis unfolding t_def x_def y_def by blast
qed

theorem reported_metrics_round_trip_witness:
  "run_test_loop exact_ops (initial_globals False) ''ref'' accept_all ''f'' 4 1 True
     example_counters example_counters example_io []
     [example_pass 0 500000000, example_pass 2 500000000] =
   Some (Accept (example_counters\<lparr>ts := \<lparr>tv_sec = 10, tv_nsec = 0\<rparr>\<rparr>)
           (example_counters\<lparr>ts := \<lparr>tv_sec = 12, tv_nsec = 500000000\<rparr>\<rparr>)
           2 example_io [1, 2]) \<and>
   print_results (initial_globals False) 0 [0, 0] ''ref''
     (example_counters\<lparr>ts := \<lparr>tv_sec = 10, tv_nsec = 0\<rparr>\<rparr>)
     (example_counters\<lparr>ts := \<lparr>tv_sec = 12, tv_nsec = 500000000\<rparr>\<rparr>)
     ''f'' 4 2 example_io =
   Some \<lparr>stdout = [Benchmark ''Ref'' ''f'' 2 (Fin 1250000000) (Fin (8 / 2500000)) None],
         stderr = []\<rparr> \<and>
   (2 :: size_t) \<noteq> 0 \<and>
   tsdiff \<lparr>tv_sec = 10, tv_nsec = 0\<rparr> \<lparr>tv_sec = 12, tv_nsec = 500000000\<rparr> = 5 / 2 \<and>
   Fin 1250000000 = Fin (5 / 2 * 1000000000 / real (unat (2 :: size_t))) \<and>
   Fin (8 / 2500000) = Fin (0.000001 * real (unat (4 :: size_t)) * real (unat (2 :: size_t)) / (5 / 2)) \<and>
   0.000001 * real (unat (4 :: size_t)) * real (unat (2 :: size_t)) / (5 / 2) * (5 / 2) * 1000000 =
     real (unat (4 :: size_t)) * real (unat (2 :: size_t))"
proof -
  have t: "tsdiff \<lparr>tv_sec = 10, tv_nsec = 0\<rparr> \<lparr>tv_sec = 12, tv_nsec = 500000000\<rparr> = 5 / 2"
    by (simp add: tsdiff_def)
  have nz: "(2 :: size_t) \<noteq> 0" by simp
  from reported_metrics_round_trip [OF example_run_half_long print_results_example] nz
  have "Fin 1250000000 = Fin (5 / 2 * 1000000000 / real (unat (2 :: size_t))) \<and>
   Fin (8 / 2500000) = Fin (0.000001 * real (unat (4 :: size_t)) * real (unat (2 :: size_t)) / (5 / 2)) \<and>
   0.000001 * real (unat (4 :: size_t)) * real (unat (2 :: size_t)) / (5 / 2) * (5 / 2) * 1000000 =
     real (unat (4 :: size_t)) * real (unat (2 :: size_t))"
    by (simp add: t)
  with example_run_half_long print_results_example nz t show ?thesis by blast
qed

subsection \<open>The counter differences\<close>

lemma counterdiff_loop_open:
  "0 \<le> i \<Longrightarrow> i < EVENT_COUNT \<Longrightarrow> fds ! nat i \<noteq> - 1 \<Longrightarrow>
   counterdiff_loop fds i j out start endc =
     counterdiff_loop fds (i + 1) (j + 1)
       (out[nat i := endc ! (2 * j + 1) - start ! (2 * j + 1)]) start endc"
  by (subst counterdiff_loop.simps) simp

lemma counterdiff_loop_absent:
  "0 \<le> i \<Longrightarrow> i < EVENT_COUNT \<Longrightarrow> fds ! nat i = - 1 \<Longrightarrow>
   counterdiff_loop fds i j out start endc =
     counterdiff_loop fds (i + 1) j (out[nat i := 0]) start endc"
  by (subst counterdiff_loop.simps) simp

lemma counterdiff_loop_negative:
  "i < 0 \<Longrightarrow> counterdiff_loop fds i j out start endc = None"
  by (subst counterdiff_loop.simps) (simp add: EVENT_COUNT_def)

text \<open>What the loop computes when \<^verbatim>\<open>i\<close> happens to hold 0 at its start.\<close>

lemma counterdiff_from_0:
  "counterdiff g 0 [a, b] start endc =
     Some (if events_fd g ! 0 = - 1 then
             [0, if events_fd g ! 1 = - 1 then 0 else endc ! 1 - start ! 1]
           else
             [endc ! 1 - start ! 1, if events_fd g ! 1 = - 1 then 0 else endc ! 3 - start ! 3])"
proof -
  have two: "counterdiff_loop (events_fd g) 2 j out start endc = Some out" for j out
    by (rule counterdiff_loop_done) (simp add: EVENT_COUNT_def)
  have one: "counterdiff_loop (events_fd g) 1 j out start endc =
      Some (if events_fd g ! 1 = - 1 then out[1 := 0]
            else out[1 := endc ! (2 * j + 1) - start ! (2 * j + 1)])" for j out
    using counterdiff_loop_open [of 1 "events_fd g" j out start endc]
      counterdiff_loop_absent [of 1 "events_fd g" j out start endc]
    by (simp add: EVENT_COUNT_def two)
  have zero: "counterdiff_loop (events_fd g) 0 0 out start endc =
      (if events_fd g ! 0 = - 1 then counterdiff_loop (events_fd g) 1 0 (out[0 := 0]) start endc
       else counterdiff_loop (events_fd g) 1 1 (out[0 := endc ! 1 - start ! 1]) start endc)" for out
    using counterdiff_loop_open [of 0 "events_fd g" 0 out start endc]
      counterdiff_loop_absent [of 0 "events_fd g" 0 out start endc]
    by (simp add: EVENT_COUNT_def)
  show ?thesis
    unfolding counterdiff_def zero one by simp
qed

lemma counterdiff_from_2:
  "counterdiff g 2 out start endc = Some out"
  unfolding counterdiff_def by (rule counterdiff_loop_done) (simp add: EVENT_COUNT_def)


lemma example_globals_open_simps:
  "ALIGN example_globals_open = False"
  "event_group example_globals_open = 3"
  "num_counters example_globals_open = 2"
  "events_fd example_globals_open = [3, 4]"
  by (simp_all add: example_globals_open_def)

lemma counterdiff_example_2:
  "counterdiff example_globals_open 2 [7, 9] (counters example_start) (counters example_end) =
     Some [7, 9]"
  by (rule counterdiff_from_2)

lemma counterdiff_example_0:
  "counterdiff example_globals_open 0 [7, 9] (counters example_start) (counters example_end) =
     Some [50, 60]"
  unfolding counterdiff_from_0
  by (simp add: example_globals_open_simps example_start_def example_end_def)

lemma counterdiff_example_1:
  "counterdiff example_globals_open 1 [7, 9] (counters example_start) (counters example_end) =
     Some [7, 50]"
proof -
  have "counterdiff_loop [3, 4] 1 0 [7, 9] (counters example_start) (counters example_end) =
      Some [7, 50]"
    using counterdiff_loop_open [of 1 "[3, 4]" 0 "[7, 9]" "counters example_start"
        "counters example_end"]
    by (simp add: EVENT_COUNT_def example_start_def example_end_def counterdiff_loop_done)
  then show ?thesis by (simp add: counterdiff_def example_globals_open_simps)
qed

lemma counterdiff_example_negative:
  "counterdiff example_globals_open (- 1) [7, 9] (counters example_start) (counters example_end) =
     None"
  unfolding counterdiff_def by (rule counterdiff_loop_negative) simp

text \<open>
  C10: the code is at fault.  \<^verbatim>\<open>counterdiff\<close> reads \<^verbatim>\<open>i\<close> before anything was
  stored in it, so its result depends on what the variable happens to hold.  With both
  counters open, the cycle counter going from 100 to 150 and the instruction counter from
  200 to 260, the differences are 50 and 60.  They are what the loop stores when
  \<^verbatim>\<open>i\<close> starts at 0; starting at 2 it stores nothing and the caller's array keeps its
  arbitrary contents (here 7 and 9), starting at 1 it stores the cycle difference into the
  slot of the instructions, and starting below 0 it reads outside \<^verbatim>\<open>events\<close>.
\<close>

theorem counterdiff_depends_on_uninitialised_i:
  "counterdiff example_globals_open 0 [7, 9] (counters example_start) (counters example_end) =
     Some [50, 60] \<and>
   counterdiff example_globals_open 1 [7, 9] (counters example_start) (counters example_end) =
     Some [7, 50] \<and>
   counterdiff example_globals_open 2 [7, 9] (counters example_start) (counters example_end) =
     Some [7, 9] \<and>
   counterdiff example_globals_open (- 1) [7, 9] (counters example_start) (counters example_end) =
     None"
  using counterdiff_example_0 counterdiff_example_1 counterdiff_example_2
    counterdiff_example_negative
  by (intro conjI)


subsection \<open>The columns of the hardware counters\<close>

lemma hw_results_present_iff:
  "hw_results g counts n m \<noteq> None \<longleftrightarrow> num_counters g = EVENT_COUNT"
  by (simp add: hw_results_def)

lemma print_results_hw_columns_iff:
  assumes "print_results g i0 counts0 name s e filename n m w = Some w'"
  shows "hw_columns (last (stdout w')) \<noteq> None \<longleftrightarrow> num_counters g = EVENT_COUNT"
proof -
  from print_results_line [OF assms] obtain counts where
    "stdout w' = stdout w @
       [Benchmark (toupper (hd (if name = [] then '' '' else name)) #
            tl (if name = [] then '' '' else name)) filename m
          (ddiv (tsdiff (ts s) (ts e) * 1000000000) (real (unat m)))
          (ddiv (0.000001 * real (unat n) * real (unat m)) (tsdiff (ts s) (ts e)))
          (hw_results g counts n m)]"
    by blast
  then have "hw_columns (last (stdout w')) = hw_results g counts n m" by simp
  then show ?thesis by (simp only: hw_results_present_iff)
qed

text \<open>
  \<^verbatim>\<open>init_counters\<close> counts the calls of \<^verbatim>\<open>perf_event_open\<close> that succeed; the
  second call is asked to join the group of the first, or no group when the first failed.
\<close>

lemma init_counters_num_counters:
  "num_counters (fst (init_counters sys (initial_globals al, w))) =
     (if sys 0 (- 1) = - 1 then 0 else 1) + (if sys 1 (sys 0 (- 1)) = - 1 then 0 else 1)"
proof -
  have two: "init_counters_loop sys 2 (g, v) = (g, v)" for g v
    by (subst init_counters_loop.simps) (simp add: EVENT_COUNT_def)
  have one: "num_counters (fst (init_counters_loop sys 1 (g, v))) =
      num_counters g + (if sys 1 (event_group g) = - 1 then 0 else 1)" for g v
    by (subst init_counters_loop.simps) (simp add: EVENT_COUNT_def Let_def two)
  show ?thesis
    unfolding init_counters_def
    by (subst init_counters_loop.simps)
      (simp add: EVENT_COUNT_def Let_def one initial_globals_simps)
qed

lemma init_counters_all_open_iff:
  "num_counters (fst (init_counters sys (initial_globals al, w))) = EVENT_COUNT \<longleftrightarrow>
     sys 0 (- 1) \<noteq> - 1 \<and> sys 1 (sys 0 (- 1)) \<noteq> - 1"
  unfolding init_counters_num_counters by (simp add: EVENT_COUNT_def)

text \<open>
  C5: the code is at fault, through the defect of C10.  The three columns are printed
  exactly when \<^verbatim>\<open>num_counters == EVENT_COUNT\<close>, that is when both counters were opened
  (\<open>print_results_hw_columns_iff\<close>, \<open>init_counters_all_open_iff\<close>), but their values
  are computed from the array that \<^verbatim>\<open>counterdiff\<close> should have filled.  With both
  counters open, 50 cycles and 60 instructions between the two points, \<open>n = 4\<close> and
  \<open>m = 2\<close>: when \<^verbatim>\<open>i\<close> starts at 2 the columns are those of the unwritten array
  (7 and 9); only when it starts at 0 are they 50 / (4 * 2), 60 / (4 * 2) and 60 / 50.
\<close>

theorem hw_columns_of_unwritten_counts:
  "print_results example_globals_open 2 [7, 9] ''ref'' example_start example_end ''f'' 4 2
     example_io =
   Some \<lparr>stdout = [Benchmark ''Ref'' ''f'' 2 (Fin 1250000000) (Fin (8 / 2500000))
                      (Some (Fin (7 / (4 * 2)), Fin (9 / (4 * 2)), Fin (9 / 7)))],
         stderr = []\<rparr> \<and>
   print_results example_globals_open 0 [7, 9] ''ref'' example_start example_end ''f'' 4 2
     example_io =
   Some \<lparr>stdout = [Benchmark ''Ref'' ''f'' 2 (Fin 1250000000) (Fin (8 / 2500000))
                      (Some (Fin (50 / (4 * 2)), Fin (60 / (4 * 2)), Fin (60 / 50)))],
         stderr = []\<rparr>"
proof -
  have t: "tsdiff (ts example_start) (ts example_end) = 5 / 2"
    by (simp add: tsdiff_def example_start_def example_end_def)
  show ?thesis
    by (simp add: print_results_def counterdiff_example_2 counterdiff_example_0 t ddiv_def
        hw_results_def example_globals_open_simps EVENT_COUNT_def example_io_def Let_def
        toupper_r)
qed

subsection \<open>Loading the file\<close>

lemma read_loop_step:
  assumes pos: "0 < sint c" and short: "unat c < unat rem"
    and le: "unat rem \<le> unat n" and buf: "unat n \<le> unat bufsize + 1"
  shows "read_loop bufsize n rem (c # cs) = read_loop bufsize n (rem - c) cs"
proof -
  from short have "unat rem \<noteq> 0" by linarith
  then have "rem \<noteq> 0" by (simp only: unat_eq_zero simp_thms)
  then have r: "rem > 0" by (simp only: word_greater_zero_iff simp_thms)
  from pos have s: "\<not> sint c < 0" by linarith
  from pos have c: "c \<noteq> 0" by auto
  from le have "rem \<le> n" by (simp only: word_le_nat_alt)
  then have "unat (n - rem) = unat n - unat rem" by (rule unat_sub)
  with short le buf have o: "\<not> unat (n - rem) + unat c > unat bufsize" by linarith
  show ?thesis
    by (simp only: read_loop.simps r s c o if_True if_False)
qed

lemma read_loop_step_rem:
  assumes short: "unat c \<le> unat rem"
  shows "unat (rem - c) = unat rem - unat c"
proof -
  from short have "c \<le> rem" by (simp only: word_le_nat_alt)
  then show ?thesis by (rule unat_sub)
qed


lemma read_loop_eof:
  assumes "0 < unat rem"
  shows "read_loop bufsize n rem (0 # rest) = Load_short (n - rem)"
proof -
  from assms have "unat rem \<noteq> 0" by linarith
  then have "rem \<noteq> 0" by (simp only: unat_eq_zero simp_thms)
  then have r: "rem > 0" by (simp only: word_greater_zero_iff simp_thms)
  have s: "\<not> sint (0 :: 64 word) < 0" by simp
  show ?thesis by (simp only: read_loop.simps r s if_True if_False simp_thms)
qed

text \<open>
  Reads that return positive counts adding up to less than what is still to be read, and
  then the end of the file: the loop stops there, with the number of bytes it has got.
\<close>

lemma read_loop_short:
  assumes "\<forall>c\<in>set cs. 0 < sint c"
    and "sum_list (map unat cs) < unat rem"
    and "unat rem \<le> unat n" and "unat n \<le> unat bufsize + 1"
  shows "read_loop bufsize n rem (cs @ 0 # rest) =
           Load_short (n - rem + of_nat (sum_list (map unat cs)))"
  using assms
proof (induction cs arbitrary: rem)
  case Nil
  then have "0 < unat rem" by simp
  then have "read_loop bufsize n rem (0 # rest) = Load_short (n - rem)" by (rule read_loop_eof)
  then show ?case by simp
next
  case (Cons c cs)
  from Cons.prems(1) have pos: "0 < sint c" and poss: "\<forall>c\<in>set cs. 0 < sint c"
    by (metis list.set_intros(1), metis list.set_intros(2))
  from Cons.prems(2) have sum: "unat c + sum_list (map unat cs) < unat rem"
    by (simp only: list.map sum_list.Cons)
  then have short: "unat c < unat rem" by linarith
  have step: "read_loop bufsize n rem (c # (cs @ 0 # rest)) =
      read_loop bufsize n (rem - c) (cs @ 0 # rest)"
    using pos short Cons.prems(3) Cons.prems(4) by (rule read_loop_step)
  from short have "unat c \<le> unat rem" by linarith
  then have rem': "unat (rem - c) = unat rem - unat c" by (rule read_loop_step_rem)
  have s': "sum_list (map unat cs) < unat (rem - c)" using sum rem' by linarith
  have l': "unat (rem - c) \<le> unat n" using rem' Cons.prems(3) by linarith
  have "read_loop bufsize n (rem - c) (cs @ 0 # rest) =
      Load_short (n - (rem - c) + of_nat (sum_list (map unat cs)))"
    using poss s' l' Cons.prems(4) by (rule Cons.IH)
  moreover have "n - (rem - c) + of_nat (sum_list (map unat cs)) =
      n - rem + of_nat (sum_list (map unat (c # cs)))"
    by (simp add: algebra_simps)
  ultimately show ?case using step by (simp only: append_Cons)
qed


lemma and_not_63: "(y :: 64 word) AND NOT 63 = y - (y AND 63)"
proof -
  have "NOT y AND (y AND 63) = (NOT y AND y) AND 63" by (simp only: and.assoc)
  also have "\<dots> = 0" by simp
  finally have "NOT y AND (y AND 63) = 0" .
  then have "y - (y AND 63) = y AND NOT (y AND 63)" by (rule disjunctive_diff_eq_and_not)
  also have "\<dots> = y AND NOT 63"
    by (rule bit_eqI) (auto simp: bit_and_iff bit_not_iff bit_or_iff)
  finally show ?thesis by (rule sym)
qed


lemma unat_64_bound: "unat (x :: 64 word) < 2 ^ 64"
  using unsigned_less [of x] by simp

lemma half_twice: "unat ((n :: 64 word) div 2 * 2) = unat n div 2 * 2"
proof -
  have two: "unat (2 :: 64 word) = 2" by simp
  have h: "unat (n div 2) = unat n div 2" by (simp only: unat_div two)
  have "unat n div 2 * 2 \<le> unat n" by simp
  with unat_64_bound [of n] have "unat (n div 2) * unat (2 :: 64 word) < 2 ^ LENGTH(64)"
    unfolding h two by simp
  then have "unat (n div 2 * 2) = unat (n div 2) * unat (2 :: 64 word)"
    by (simp only: unat_mult_lem)
  then show ?thesis by (simp only: h two)
qed

lemma memory_allocate_ge:
  assumes "unat sz + 63 < 2 ^ 64"
  shows "unat sz \<le> unat (memory_allocate al sz)"
proof (cases al)
  case False
  then show ?thesis by (simp add: memory_allocate_def)
next
  case True
  define y where "y = sz + 63"
  have c: "unat (63 :: 64 word) = 63" by simp
  from assms have "unat sz + unat (63 :: 64 word) < 2 ^ LENGTH(64)" unfolding c by simp
  then have "unat (sz + 63) = unat sz + unat (63 :: 64 word)" by (rule unat_add_lem [THEN iffD1])
  then have y: "unat y = unat sz + 63" unfolding y_def c .
  have "y AND 63 \<le> 63" by (rule word_and_le1)
  then have low: "unat (y AND 63) \<le> 63" by (simp only: word_le_nat_alt c)
  have "y AND 63 \<le> y" by (rule word_and_le2)
  then have "unat (y - (y AND 63)) = unat y - unat (y AND 63)" by (rule unat_sub)
  then have "unat (y AND NOT 63) = unat y - unat (y AND 63)" by (simp only: and_not_63)
  with y low have "unat sz \<le> unat (y AND NOT 63)" by linarith
  then show ?thesis using True by (simp only: memory_allocate_def y_def if_True)
qed

lemma buffer_holds_all_but_one:
  assumes "unat n < 2 ^ 63"
  shows "unat n \<le> unat (memory_allocate al (n div 2 * 2)) + 1"
proof -
  have "unat (n div 2 * 2) + 63 < 2 ^ 64" using assms unfolding half_twice by simp
  then have "unat (n div 2 * 2) \<le> unat (memory_allocate al (n div 2 * 2))"
    by (rule memory_allocate_ge)
  then show ?thesis unfolding half_twice by linarith
qed

text \<open>
  Without \<^verbatim>\<open>ALIGN\<close> the buffer of an odd \<open>n\<close> is one byte short, and no sequence of
  reads ends with the file loaded: the loop stops early or stores beyond the buffer.
\<close>

lemma buffer_of_odd_length:
  assumes "odd (unat n)"
  shows "unat (memory_allocate False (n div 2 * 2)) < unat n"
proof -
  have "unat (memory_allocate False (n div 2 * 2)) = unat n div 2 * 2"
    by (simp only: memory_allocate_def if_False half_twice)
  moreover from assms have "unat n div 2 * 2 < unat n" by presburger
  ultimately show ?thesis by simp
qed

lemma read_loop_never_loaded:
  assumes "unat bufsize < unat n" and "unat (n - rem) \<le> unat bufsize"
  shows "read_loop bufsize n rem cs \<noteq> Loaded"
  using assms(2)
proof (induction cs arbitrary: rem)
  case Nil
  have "rem \<noteq> 0"
  proof
    assume "rem = 0"
    with Nil assms(1) show False by simp
  qed
  then have "rem > 0" by (simp only: word_greater_zero_iff simp_thms)
  then show ?case by simp
next
  case (Cons c cs)
  have "rem \<noteq> 0"
  proof
    assume "rem = 0"
    with Cons.prems assms(1) show False by simp
  qed
  then have r: "rem > 0" by (simp only: word_greater_zero_iff simp_thms)
  show ?case
  proof (cases "sint c < 0 \<or> c = 0 \<or> unat (n - rem) + unat c > unat bufsize")
    case True
    with r show ?thesis by auto
  next
    case False
    then have fit: "unat (n - rem) + unat c \<le> unat bufsize" by linarith
    with unat_64_bound [of bufsize]
    have "unat (n - rem) + unat c < 2 ^ LENGTH(64)" by simp
    then have "unat (n - rem + c) = unat (n - rem) + unat c" by (rule unat_add_lem [THEN iffD1])
    moreover have eq: "n - (rem - c) = n - rem + c" by simp
    ultimately have "unat (n - (rem - c)) = unat (n - rem) + unat c" by (simp only: eq)
    with fit have "unat (n - (rem - c)) \<le> unat bufsize" by linarith
    then have "read_loop bufsize n (rem - c) cs \<noteq> Loaded" by (rule Cons.IH)
    with r False show ?thesis by simp
  qed
qed

lemma odd_length_never_loaded:
  "odd (unat n) \<Longrightarrow> read_loop (memory_allocate False (n div 2 * 2)) n n cs \<noteq> Loaded"
  by (rule read_loop_never_loaded [OF buffer_of_odd_length]) simp_all

lemma memory_allocate_False: "memory_allocate False sz = sz"
  by (simp add: memory_allocate_def)

lemma odd_alloc: "memory_allocate False (3 div 2 * 2) = 2"
  by (simp add: memory_allocate_False)

lemma odd_read: "read_loop 2 3 3 [3] = Load_overflow"
  by simp

lemma odd_read_twice: "read_loop 2 3 3 [2, 1] = Load_overflow"
  by simp

lemma aligned_alloc_65: "memory_allocate True (65 div 2 * 2) = 64"
  by (simp add: memory_allocate_def)

lemma aligned_read_65: "read_loop 64 65 65 [65] = Load_overflow"
  by simp

lemma odd_test:
  "test_utf16le_validate (initial_globals False) example_odd_test c accept_all ''f'' 3 m w =
     Test_undefined"
  by (simp add: test_utf16le_validate_def example_odd_test_def initial_globals_simps
      memory_allocate_False)

lemma odd_run:
  "run_test exact_ops (initial_globals False) 0 [0, 0] example_counters example_counters ''ref''
     accept_all ''f'' 3 example_io [example_odd_pass] = Some Undefined"
proof -
  have "run_test_pass (initial_globals False) ''ref'' accept_all ''f'' 3 1
      example_counters example_counters example_io example_odd_pass = Pass_undefined"
    by (simp add: run_test_pass_def example_odd_pass_def reset_counters_example odd_test)
  then show ?thesis
    by (simp add: run_test_def loop_step_undefined)
qed

text \<open>
  C8: the code is at fault.  The buffer has room for \<open>n / 2\<close> code units of two bytes,
  which for an odd \<open>n\<close> is one byte less than the \<open>n\<close> bytes the read loop then asks
  for.  For a file of three bytes two bytes are allocated and the read stores three (in one
  call or in two); the case ends in undefined behaviour.  With \<^verbatim>\<open>ALIGN\<close> the
  allocation of a file of 65 bytes is 64 bytes.
\<close>

theorem odd_length_overflows_buffer:
  "memory_allocate False (3 div 2 * 2) = 2 \<and>
   read_loop 2 3 3 [3] = Load_overflow \<and>
   read_loop 2 3 3 [2, 1] = Load_overflow \<and>
   test_utf16le_validate (initial_globals False) example_odd_test example_counters accept_all
     ''f'' 3 1 example_io = Test_undefined \<and>
   run_test exact_ops (initial_globals False) 0 [0, 0] example_counters example_counters ''ref''
     accept_all ''f'' 3 example_io [example_odd_pass] = Some Undefined \<and>
   memory_allocate True (65 div 2 * 2) = 64 \<and>
   read_loop 64 65 65 [65] = Load_overflow"
  using odd_alloc odd_read odd_read_twice odd_test odd_run aligned_alloc_65 aligned_read_65
  by (intro conjI)

lemma reset_counters_ok_io:
  "reset_counters g e c w = (0, c1, w1) \<Longrightarrow> w1 = w"
  by (auto simp: reset_counters_def Let_def split: option.splits if_splits)

lemma test_short_file:
  assumes env: "malloc_ok e" "open_ok e" "reads e = cs @ 0 # rest"
    and pos: "\<forall>c\<in>set cs. 0 < sint c"
    and less: "sum_list (map unat cs) < unat n"
    and n: "unat n < 2 ^ 63"
  shows "test_utf16le_validate g e c validate filename n m w =
           Test_ret (- 1) c
             (w\<lparr>stderr := stderr w @ [Short_file filename (of_nat (sum_list (map unat cs))) n]\<rparr>)"
proof -
  have "read_loop (memory_allocate (ALIGN g) (n div 2 * 2)) n n (cs @ 0 # rest) =
      Load_short (n - n + of_nat (sum_list (map unat cs)))"
    using pos less order_refl buffer_holds_all_but_one [OF n] by (rule read_loop_short)
  then have "read_loop (memory_allocate (ALIGN g) (n div 2 * 2)) n n (reads e) =
      Load_short (of_nat (sum_list (map unat cs)))"
    by (simp add: env(3))
  then show ?thesis
    unfolding test_utf16le_validate_def Let_def using env(1) env(2) by simp
qed


text \<open>
  C9.  When the reads of a pass return positive counts that add up to less than \<open>n\<close> and
  the next read returns 0, the case ends there: the short-file message with the number of
  bytes read goes to the error stream, \<^verbatim>\<open>FAIL\<close> and the label are printed, and
  \<^verbatim>\<open>run_test\<close> returns without a call of \<^verbatim>\<open>print_results\<close>.  A read that returns
  fewer bytes than were asked for is followed by a read for the rest.  (\<open>n < 2 ^ 63\<close>:
  \<open>n\<close> is the size of a file, an \<^verbatim>\<open>off_t\<close>.)
\<close>

theorem short_file_fails_the_case:
  assumes start_ok: "fst (reset_counters g (snap_start p) start w) = 0"
    and env: "malloc_ok (test p)" "open_ok (test p)" "reads (test p) = cs @ 0 # rest"
    and pos: "\<forall>c\<in>set cs. 0 < sint c"
    and less: "sum_list (map unat cs) < unat n"
    and n: "unat n < 2 ^ 63"
  shows "run_test_loop fp g name payload filename n m first_run start endc w ms (p # ps) =
           Some (Exit_fail
             (w\<lparr>stdout := stdout w @ [FAIL name],
                stderr := stderr w @
                  [Short_file filename (of_nat (sum_list (map unat cs))) n]\<rparr>)
             (ms @ [m])) \<and>
         run_test fp g i0 counts0 start endc name payload filename n w (p # ps) =
           Some (Finished
             (w\<lparr>stdout := stdout w @ [FAIL name],
                stderr := stderr w @
                  [Short_file filename (of_nat (sum_list (map unat cs))) n]\<rparr>)) \<and>
         (\<forall>c rem more.
            0 < sint c \<and> unat c < unat rem \<and> unat rem \<le> unat n \<longrightarrow>
              read_loop (memory_allocate (ALIGN g) (n div 2 * 2)) n rem (c # more) =
              read_loop (memory_allocate (ALIGN g) (n div 2 * 2)) n (rem - c) more)"
proof -
  let ?W = "w\<lparr>stdout := stdout w @ [FAIL name],
                stderr := stderr w @
                  [Short_file filename (of_nat (sum_list (map unat cs))) n]\<rparr>"
  obtain r c1 w1 where rc: "reset_counters g (snap_start p) start w = (r, c1, w1)"
    by (cases "reset_counters g (snap_start p) start w") auto
  with start_ok have r: "r = 0" by simp
  with rc have w1: "w1 = w" by (simp add: reset_counters_ok_io)
  have t: "test_utf16le_validate g (test p) c1 payload filename n m' w =
      Test_ret (- 1) c1
        (w\<lparr>stderr := stderr w @ [Short_file filename (of_nat (sum_list (map unat cs))) n]\<rparr>)"
    for m'
    using env pos less n by (rule test_short_file)
  have pass: "run_test_pass g name payload filename n m' start endc w p = Pass_fail ?W" for m'
    unfolding run_test_pass_def rc r w1 by (simp add: t print_FAIL_def)
  have loop: "run_test_loop fp g name payload filename n m' f start endc w ms' (p # ps) =
      Some (Exit_fail ?W (ms' @ [m']))" for m' f ms'
    using pass by (rule loop_step_fail)
  have run: "run_test fp g i0 counts0 start endc name payload filename n w (p # ps) =
      Some (Finished ?W)"
    unfolding run_test_def loop by simp
  have retry: "read_loop (memory_allocate (ALIGN g) (n div 2 * 2)) n rem (c # more) =
      read_loop (memory_allocate (ALIGN g) (n div 2 * 2)) n (rem - c) more"
    if "0 < sint c \<and> unat c < unat rem \<and> unat rem \<le> unat n" for c rem more
  proof -
    from that have a: "0 < sint c" and b: "unat c < unat rem" and c: "unat rem \<le> unat n"
      by blast+
    from a b c buffer_holds_all_but_one [OF n] show ?thesis by (rule read_loop_step)
  qed
  from loop run retry show ?thesis by blast
qed

theorem short_file_fails_the_case_witness:
  "fst (reset_counters (initial_globals False) (snap_start example_short_pass)
     example_counters example_io) = 0 \<and>
   reads (test example_short_pass) = [2048] @ 0 # [] \<and>
   0 < sint (2048 :: ssize_t) \<and>
   sum_list (map unat [2048 :: ssize_t]) < unat (4096 :: size_t) \<and>
   unat (4096 :: size_t) < 2 ^ 63 \<and>
   run_test_loop exact_ops (initial_globals False) ''ref'' accept_all ''f'' 4096 1 True
     example_counters example_counters example_io [] [example_short_pass] =
   Some (Exit_fail \<lparr>stdout = [FAIL ''ref''], stderr = [Short_file ''f'' 2048 4096]\<rparr> [1]) \<and>
   run_test exact_ops (initial_globals False) 0 [0, 0] example_counters example_counters ''ref''
     accept_all ''f'' 4096 example_io [example_short_pass] =
   Some (Finished \<lparr>stdout = [FAIL ''ref''], stderr = [Short_file ''f'' 2048 4096]\<rparr>) \<and>
   read_loop (memory_allocate False (4096 div 2 * 2)) 4096 4096 [2048, 0] =
   read_loop (memory_allocate False (4096 div 2 * 2)) 4096 (4096 - 2048) [0]"
proof -
  have a: "fst (reset_counters (initial_globals False) (snap_start example_short_pass)
     example_counters example_io) = 0"
    by (simp add: example_short_pass_def reset_counters_example)
  have b1: "malloc_ok (test example_short_pass)"
    and b2: "open_ok (test example_short_pass)"
    and b3: "reads (test example_short_pass) = [2048] @ 0 # []"
    by (simp_all add: example_short_pass_def example_short_test_def)
  have c: "\<forall>c\<in>set [2048 :: ssize_t]. 0 < sint c" by simp
  have c': "0 < sint (2048 :: ssize_t)" by simp
  have d: "sum_list (map unat [2048 :: ssize_t]) < unat (4096 :: size_t)" by simp
  have e: "unat (4096 :: size_t) < 2 ^ 63" by simp
  note inst = short_file_fails_the_case [OF a b1 b2 b3 c d e,
      where name = "''ref''" and payload = accept_all and filename = "''f''" and m = 1
        and first_run = True and endc = example_counters and ms = "[]" and ps = "[]"
        and ?i0.0 = 0 and ?counts0.0 = "[0, 0]"]
  from inst have loop: "run_test_loop exact_ops (initial_globals False) ''ref'' accept_all ''f'' 4096 1 True
     example_counters example_counters example_io [] [example_short_pass] =
   Some (Exit_fail \<lparr>stdout = [FAIL ''ref''], stderr = [Short_file ''f'' 2048 4096]\<rparr> [1])"
    by (simp add: example_io_def)
  from inst have run: "run_test exact_ops (initial_globals False) 0 [0, 0] example_counters example_counters
     ''ref'' accept_all ''f'' 4096 example_io [example_short_pass] =
   Some (Finished \<lparr>stdout = [FAIL ''ref''], stderr = [Short_file ''f'' 2048 4096]\<rparr>)"
    by (simp add: example_io_def)
  have f: "0 < sint (2048 :: ssize_t) \<and> unat (2048 :: ssize_t) < unat (4096 :: size_t) \<and>
      unat (4096 :: size_t) \<le> unat (4096 :: size_t)"
    by simp
  from inst have "\<forall>c rem more.
            0 < sint c \<and> unat c < unat rem \<and> unat rem \<le> unat (4096 :: size_t) \<longrightarrow>
              read_loop (memory_allocate (ALIGN (initial_globals False)) (4096 div 2 * 2)) 4096 rem (c # more) =
              read_loop (memory_allocate (ALIGN (initial_globals False)) (4096 div 2 * 2)) 4096 (rem - c) more"
    by blast
  with f have "read_loop (memory_allocate (ALIGN (initial_globals False)) (4096 div 2 * 2)) 4096 4096 (2048 # [0]) =
      read_loop (memory_allocate (ALIGN (initial_globals False)) (4096 div 2 * 2)) 4096 (4096 - 2048) [0]"
    by blast
  then have retry: "read_loop (memory_allocate False (4096 div 2 * 2)) 4096 4096 [2048, 0] =
      read_loop (memory_allocate False (4096 div 2 * 2)) 4096 (4096 - 2048) [0]"
    by (simp only: initial_globals_simps)
  from a b3 c' d e loop run retry show ?thesis by (intro conjI)
qed

subsection \<open>The points of the accepted pass\<close>

lemma reset_counters_ok_clock:
  "reset_counters g e c w = (0, c1, w1) \<Longrightarrow> clock_gettime e = Some (ts c1)"
  by (auto simp: reset_counters_def Let_def split: option.splits if_splits)

lemma test_utf16le_validate_ok_clock:
  assumes "test_utf16le_validate g e c validate filename n m w = Test_ret 0 c1 w1"
  shows "clock_gettime (snap_test e) = Some (ts c1)"
proof (cases "malloc_ok e \<and> open_ok e")
  case False
  with assms show ?thesis
    by (auto simp: test_utf16le_validate_def Let_def split: if_splits)
next
  case True
  show ?thesis
  proof (cases "read_loop (memory_allocate (ALIGN g) (n div 2 * 2)) n n (reads e)")
    case Load_error
    with assms True show ?thesis by (simp add: test_utf16le_validate_def Let_def)
  next
    case (Load_short k)
    with assms True show ?thesis by (simp add: test_utf16le_validate_def Let_def)
  next
    case Load_overflow
    with assms True show ?thesis by (simp add: test_utf16le_validate_def Let_def)
  next
    case Loaded
    obtain r c2 w2 where rc: "reset_counters g (snap_test e) c w = (r, c2, w2)"
      by (cases "reset_counters g (snap_test e) c w") auto
    from assms True Loaded rc have "r = 0" and "c2 = c1"
      by (auto simp: test_utf16le_validate_def Let_def split: if_splits)
    with rc have "reset_counters g (snap_test e) c w = (0, c1, w2)" by simp
    then show ?thesis by (rule reset_counters_ok_clock)
  qed
qed

text \<open>
  The points of a measured pass hold the two times that the clock delivered during that
  pass: to the test once the file was loaded, and to \<^verbatim>\<open>run_test\<close> after the test.
\<close>

lemma measured_clocks:
  assumes "run_test_pass g name payload filename n m start endc w p = Measured s e w'"
  shows "clock_gettime (snap_test (test p)) = Some (ts s) \<and>
         clock_gettime (snap_end p) = Some (ts e)"
proof -
  obtain r1 c1 v1 where a: "reset_counters g (snap_start p) start w = (r1, c1, v1)"
    by (cases "reset_counters g (snap_start p) start w") auto
  show ?thesis
  proof (cases "test_utf16le_validate g (test p) c1 payload filename n m v1")
    case Test_undefined
    with assms a show ?thesis by (auto simp: run_test_pass_def split: if_splits)
  next
    case (Test_ret r2 c2 v2)
    obtain r3 c3 v3 where b: "reset_counters g (snap_end p) endc v2 = (r3, c3, v3)"
      by (cases "reset_counters g (snap_end p) endc v2") auto
    from assms a Test_ret b have eqs: "r2 = 0" "r3 = 0" "c2 = s" "c3 = e"
      by (auto simp: run_test_pass_def split: if_splits)
    from Test_ret eqs have "test_utf16le_validate g (test p) c1 payload filename n m v1 =
        Test_ret 0 s v2" by simp
    then have "clock_gettime (snap_test (test p)) = Some (ts s)"
      by (rule test_utf16le_validate_ok_clock)
    moreover from b eqs have "reset_counters g (snap_end p) endc v2 = (0, e, v3)" by simp
    then have "clock_gettime (snap_end p) = Some (ts e)" by (rule reset_counters_ok_clock)
    ultimately show ?thesis by simp
  qed
qed

text \<open>The points of an accepted pass are those measured in the last pass run.\<close>

lemma accepted_points_of_last_pass:
  "run_test_loop fp g name payload filename n m first_run start endc w ms ps =
     Some (Accept s e m' w' ms') \<Longrightarrow>
   \<exists>start' endc' w''.
     run_test_pass g name payload filename n m' start' endc' w''
       (ps ! (length ms' - length ms - 1)) = Measured s e w'"
proof (induction ps arbitrary: m first_run start endc w ms)
  case Nil
  then show ?case by simp
next
  case (Cons p ps)
  have step: ?case
    if rec: "run_test_loop fp g name payload filename n m1 False s1 e1 w1 (ms @ [m]) ps =
        Some (Accept s e m' w' ms')" for m1 s1 e1 w1
  proof -
    from Cons.IH [OF rec] obtain start' endc' w'' where
      a: "run_test_pass g name payload filename n m' start' endc' w''
          (ps ! (length ms' - length (ms @ [m]) - 1)) = Measured s e w'"
      by blast
    from run_test_loop_accept_trace [OF rec] have "length (ms @ [m]) + 1 \<le> length ms'"
      by simp
    then have "length ms' - length ms - 1 = Suc (length ms' - length (ms @ [m]) - 1)"
      by simp
    then have "(p # ps) ! (length ms' - length ms - 1) =
        ps ! (length ms' - length (ms @ [m]) - 1)"
      by simp
    with a show ?thesis by metis
  qed
  show ?case
  proof (cases "run_test_pass g name payload filename n m start endc w p")
    case (Pass_fail w1)
    with Cons.prems show ?thesis by (simp add: loop_step_fail)
  next
    case Pass_undefined
    with Cons.prems show ?thesis by (simp add: loop_step_undefined)
  next
    case (Measured s1 e1 w1)
    show ?thesis
    proof (cases "tsdiff (ts s1) (ts e1) < TIME_GOAL")
      case True
      show ?thesis
      proof (cases "next_m fp m (tsdiff (ts s1) (ts e1))")
        case None
        with Cons.prems Measured True show ?thesis by (simp add: loop_step_short)
      next
        case (Some m1)
        with Cons.prems Measured True
        have "run_test_loop fp g name payload filename n m1 False s1 e1 w1 (ms @ [m]) ps =
            Some (Accept s e m' w' ms')"
          by (simp add: loop_step_short)
        then show ?thesis by (rule step)
      qed
    next
      case False
      show ?thesis
      proof (cases first_run)
        case True
        with Cons.prems Measured False
        have "run_test_loop fp g name payload filename n m False s1 e1 w1 (ms @ [m]) ps =
            Some (Accept s e m' w' ms')"
          by (simp add: loop_step_warm_up)
        then show ?thesis by (rule step)
      next
        case f: False
        with Cons.prems Measured False
        have "s1 = s" "e1 = e" "m = m'" "w1 = w'" "ms' = ms @ [m]"
          by (auto simp add: loop_step_accept)
        with Measured show ?thesis by auto
      qed
    qed
  qed
qed

lemma test_example_at:
  "test_utf16le_validate (initial_globals False) (example_test_env_at t) c accept_all filename 4 m w =
     Test_ret 0 (c\<lparr>ts := \<lparr>tv_sec = t, tv_nsec = 0\<rparr>\<rparr>) w"
proof -
  have a: "ALIGN (initial_globals False) = False" by (simp add: initial_globals_def)
  have b: "(4 :: 64 word) div 2 = 2" by simp
  show ?thesis
    unfolding test_utf16le_validate_def Let_def b a
    by (simp add: example_test_env_at_def memory_allocate_4 reset_counters_example validate_loop_eq accept_all_def)
qed

lemma example_pass_at_measured:
  "run_test_pass (initial_globals False) name accept_all filename 4 m start endc w
     (example_pass_at t sec nsec) =
     Measured (start\<lparr>ts := \<lparr>tv_sec = t, tv_nsec = 0\<rparr>\<rparr>)
       (endc\<lparr>ts := \<lparr>tv_sec = t + sec, tv_nsec = nsec\<rparr>\<rparr>) w"
  by (simp add: run_test_pass_def example_pass_at_def reset_counters_example test_example_at)

lemma example_run_warm_up:
  "run_test_loop exact_ops (initial_globals False) ''ref'' accept_all ''f'' 4 1 True
     example_counters example_counters example_io []
     [example_pass_at 10 3 0, example_pass_at 20 2 500000000] =
   Some (Accept (example_counters\<lparr>ts := \<lparr>tv_sec = 20, tv_nsec = 0\<rparr>\<rparr>)
           (example_counters\<lparr>ts := \<lparr>tv_sec = 22, tv_nsec = 500000000\<rparr>\<rparr>)
           1 example_io [1, 1])"
  by (simp add: run_test_loop.simps(2) example_pass_at_measured tsdiff_def TIME_GOAL_def)

text \<open>
  C1.  A case that ends with an accepted pass has run at least two passes.  The points
  that are reported, \<open>s\<close> and \<open>e\<close>, are the ones measured in the last pass run, which is
  not the first: they hold the two times the clock delivered in that pass.  The first
  pass is started with \<open>m = 1\<close>; when it already reaches the time goal it is not
  accepted: the loop goes on with the same multiplier, so the second pass is started with
  \<open>m = 1\<close> again.
\<close>

theorem warm_up_pass_is_discarded:
  assumes run: "run_test_loop fp g name payload filename n 1 True start endc w [] ps =
             Some (Accept s e m w' ms)"
  shows "2 \<le> length ms \<and> length ms \<le> length ps \<and> hd ms = 1 \<and> last ms = m \<and>
         0 < length ms - 1 \<and>
         (\<exists>start' endc' w''.
            run_test_pass g name payload filename n m start' endc' w'' (ps ! (length ms - 1)) =
              Measured s e w') \<and>
         clock_gettime (snap_test (test (ps ! (length ms - 1)))) = Some (ts s) \<and>
         clock_gettime (snap_end (ps ! (length ms - 1))) = Some (ts e) \<and>
         (\<forall>s1 e1 w1.
            run_test_pass g name payload filename n 1 start endc w (hd ps) = Measured s1 e1 w1 \<and>
            TIME_GOAL \<le> tsdiff (ts s1) (ts e1) \<longrightarrow>
              ms ! 1 = 1 \<and>
              run_test_loop fp g name payload filename n 1 False s1 e1 w1 [1] (tl ps) =
                Some (Accept s e m w' ms))"
proof -
  from run_test_loop_trace [OF run] obtain ys where
    ys: "ms = 1 # ys" "length (1 # ys) \<le> length ps" by auto
  from run_test_loop_accept_trace [OF run] have
    len: "2 \<le> length ms" and lst: "last ms = m" by simp_all
  from accepted_points_of_last_pass [OF run] obtain start' endc' w'' where
    last_pass: "run_test_pass g name payload filename n m start' endc' w''
        (ps ! (length ms - 1)) = Measured s e w'"
    by auto
  note clocks = measured_clocks [OF last_pass]
  have warm: "ms ! 1 = 1 \<and>
      run_test_loop fp g name payload filename n 1 False s1 e1 w1 [1] (tl ps) =
        Some (Accept s e m w' ms)"
    if p: "run_test_pass g name payload filename n 1 start endc w (hd ps) = Measured s1 e1 w1"
      and t: "TIME_GOAL \<le> tsdiff (ts s1) (ts e1)" for s1 e1 w1
  proof -
    from run obtain p0 ps0 where ps: "ps = p0 # ps0" by (cases ps) simp_all
    from t have nt: "\<not> tsdiff (ts s1) (ts e1) < TIME_GOAL" by simp
    from p have p': "run_test_pass g name payload filename n 1 start endc w p0 = Measured s1 e1 w1"
      by (simp add: ps)
    from run have rec: "run_test_loop fp g name payload filename n 1 False s1 e1 w1 [1] ps0 =
        Some (Accept s e m w' ms)"
      unfolding ps loop_step_warm_up [OF p' nt] by simp
    from run_test_loop_trace [OF rec] obtain zs where "ms = [1] @ 1 # zs" by auto
    then have "ms ! 1 = 1" by simp
    with rec show ?thesis by (simp add: ps)
  qed
  from len have pos: "0 < length ms - 1" by simp
  from ys have a: "length ms \<le> length ps" "hd ms = 1" by simp_all
  from last_pass have ex: "\<exists>start' endc' w''.
      run_test_pass g name payload filename n m start' endc' w'' (ps ! (length ms - 1)) =
        Measured s e w'" by blast
  from warm have all: "\<forall>s1 e1 w1.
      run_test_pass g name payload filename n 1 start endc w (hd ps) = Measured s1 e1 w1 \<and>
      TIME_GOAL \<le> tsdiff (ts s1) (ts e1) \<longrightarrow>
        ms ! 1 = 1 \<and>
        run_test_loop fp g name payload filename n 1 False s1 e1 w1 [1] (tl ps) =
          Some (Accept s e m w' ms)" by blast
  from clocks have c1: "clock_gettime (snap_test (test (ps ! (length ms - 1)))) = Some (ts s)"
    and c2: "clock_gettime (snap_end (ps ! (length ms - 1))) = Some (ts e)" by blast+
  show ?thesis
    by (rule conjI len a lst pos ex c1 c2 all)+
qed

theorem warm_up_pass_is_discarded_witness:
  "run_test_loop exact_ops (initial_globals False) ''ref'' accept_all ''f'' 4 1 True
     example_counters example_counters example_io []
     [example_pass_at 10 3 0, example_pass_at 20 2 500000000] =
   Some (Accept (example_counters\<lparr>ts := \<lparr>tv_sec = 20, tv_nsec = 0\<rparr>\<rparr>)
           (example_counters\<lparr>ts := \<lparr>tv_sec = 22, tv_nsec = 500000000\<rparr>\<rparr>)
           1 example_io [1, 1]) \<and>
   run_test_pass (initial_globals False) ''ref'' accept_all ''f'' 4 1
     example_counters example_counters example_io (example_pass_at 10 3 0) =
   Measured (example_counters\<lparr>ts := \<lparr>tv_sec = 10, tv_nsec = 0\<rparr>\<rparr>)
     (example_counters\<lparr>ts := \<lparr>tv_sec = 13, tv_nsec = 0\<rparr>\<rparr>) example_io \<and>
   TIME_GOAL \<le> tsdiff \<lparr>tv_sec = 10, tv_nsec = 0\<rparr> \<lparr>tv_sec = 13, tv_nsec = 0\<rparr> \<and>
   (2::nat) \<le> length [1, 1 :: size_t] \<and> [1, 1 :: size_t] ! 1 = 1 \<and>
   clock_gettime (snap_test (test (example_pass_at 20 2 500000000))) =
     Some \<lparr>tv_sec = 20, tv_nsec = 0\<rparr> \<and>
   clock_gettime (snap_end (example_pass_at 20 2 500000000)) =
     Some \<lparr>tv_sec = 22, tv_nsec = 500000000\<rparr> \<and>
   clock_gettime (snap_test (test (example_pass_at 10 3 0))) =
     Some \<lparr>tv_sec = 10, tv_nsec = 0\<rparr> \<and>
   run_test_loop exact_ops (initial_globals False) ''ref'' accept_all ''f'' 4 1 False
     (example_counters\<lparr>ts := \<lparr>tv_sec = 10, tv_nsec = 0\<rparr>\<rparr>)
     (example_counters\<lparr>ts := \<lparr>tv_sec = 13, tv_nsec = 0\<rparr>\<rparr>) example_io [1]
     [example_pass_at 20 2 500000000] =
   Some (Accept (example_counters\<lparr>ts := \<lparr>tv_sec = 20, tv_nsec = 0\<rparr>\<rparr>)
           (example_counters\<lparr>ts := \<lparr>tv_sec = 22, tv_nsec = 500000000\<rparr>\<rparr>)
           1 example_io [1, 1])"
proof -
  have p: "run_test_pass (initial_globals False) ''ref'' accept_all ''f'' 4 1
       example_counters example_counters example_io (example_pass_at 10 3 0) =
     Measured (example_counters\<lparr>ts := \<lparr>tv_sec = 10, tv_nsec = 0\<rparr>\<rparr>)
       (example_counters\<lparr>ts := \<lparr>tv_sec = 13, tv_nsec = 0\<rparr>\<rparr>) example_io"
    by (simp add: example_pass_at_measured)
  have t: "TIME_GOAL \<le> tsdiff \<lparr>tv_sec = 10, tv_nsec = 0\<rparr> \<lparr>tv_sec = 13, tv_nsec = 0\<rparr>"
    by (simp add: tsdiff_def TIME_GOAL_def)
  have c: "clock_gettime (snap_test (test (example_pass_at 10 3 0))) =
     Some \<lparr>tv_sec = 10, tv_nsec = 0\<rparr>"
    by (simp add: example_pass_at_def example_test_env_at_def clock_at_def)
  from warm_up_pass_is_discarded [OF example_run_warm_up] p t c example_run_warm_up
  show ?thesis by simp
qed

subsection \<open>The pass after a short pass\<close>

text \<open>
  The rounding decides the multiplier.  For \<open>m = 2\<close> and a pass of 1.4 s the exact
  quotient \<open>2 * 2 * 1.05 / 1.4\<close> is 3, and so is the next multiplier under the exact
  operations; IEEE doubles give \<open>3 + 2 ^ - 51\<close> for the same expression, and with them
  the next multiplier is 4.
\<close>

lemma next_m_exact_example: "next_m exact_ops 2 (7 / 5) = Some 3"
proof -
  have conv: "double_to_size_t (of_int 3) = Some 3"
    by (simp add: double_to_size_t_def)
  have half: "\<not> (7 / 5 :: real) < TIME_GOAL * 0.5" by (simp add: TIME_GOAL_def)
  have est: "\<lceil>fdiv exact_ops (fmul exact_ops (fmul exact_ops (fsize exact_ops 2) TIME_GOAL) 1.05) (7 / 5)\<rceil> = 3"
    by (simp add: exact_ops_def TIME_GOAL_def)
  have "double_to_size_t (of_int
      \<lceil>fdiv exact_ops (fmul exact_ops (fmul exact_ops (fsize exact_ops 2) TIME_GOAL) 1.05) (7 / 5)\<rceil>) =
        Some 3"
    unfolding est by (rule conv)
  from next_m_unfold [OF half this] show ?thesis by simp
qed

lemma next_m_rounded_example:
  assumes "fdiv fp (fmul fp (fmul fp (fsize fp 2) TIME_GOAL) 1.05) (7 / 5) = 3 + 1 / 2 ^ 51"
  shows "next_m fp 2 (7 / 5) = Some 4"
proof -
  have conv: "double_to_size_t (of_int 4) = Some 4"
    by (simp add: double_to_size_t_def)
  have half: "\<not> (7 / 5 :: real) < TIME_GOAL * 0.5" by (simp add: TIME_GOAL_def)
  have c: "\<lceil>3 + 1 / 2 ^ 51 :: real\<rceil> = 4"
    by (simp add: ceiling_eq_iff)
  have "double_to_size_t (of_int
      \<lceil>fdiv fp (fmul fp (fmul fp (fsize fp 2) TIME_GOAL) 1.05) (7 / 5)\<rceil>) = Some 4"
    unfolding assms c by (rule conv)
  from next_m_unfold [OF half this] show ?thesis by simp
qed

lemma loop_step_later:
  "run_test_loop fp g name payload filename n m1 False s1 e1 w1 (ms @ [m]) (q # ps) =
     (case run_test_pass g name payload filename n m1 s1 e1 w1 q of
        Pass_fail w2 \<Rightarrow> Some (Exit_fail w2 (ms @ [m, m1]))
      | Pass_undefined \<Rightarrow> Some (Exit_undefined (ms @ [m, m1]))
      | Measured s2 e2 w2 \<Rightarrow>
          if tsdiff (ts s2) (ts e2) < TIME_GOAL then
            (case next_m fp m1 (tsdiff (ts s2) (ts e2)) of
               None \<Rightarrow> Some (Exit_undefined (ms @ [m, m1]))
             | Some m2 \<Rightarrow>
                 run_test_loop fp g name payload filename n m2 False s2 e2 w2 (ms @ [m, m1]) ps)
          else Some (Accept s2 e2 m1 w2 (ms @ [m, m1])))"
proof -
  have app: "(ms @ [m]) @ [m1] = ms @ [m, m1]" by simp
  show ?thesis
  proof (cases "run_test_pass g name payload filename n m1 s1 e1 w1 q")
    case (Pass_fail w2)
    then show ?thesis by (simp add: loop_step_fail)
  next
    case Pass_undefined
    then show ?thesis by (simp add: loop_step_undefined)
  next
    case (Measured s2 e2 w2)
    show ?thesis
    proof (cases "tsdiff (ts s2) (ts e2) < TIME_GOAL")
      case True
      from loop_step_short [OF Measured True, of fp False "ms @ [m]" ps] Measured True
      show ?thesis by (simp only: app pass_result.case if_True)
    next
      case False
      from loop_step_accept [OF Measured False, of fp "ms @ [m]" ps] Measured False
      show ?thesis by (simp only: app pass_result.case if_False)
    qed
  qed
qed

text \<open>
  C2.  After a pass that stayed below \<^verbatim>\<open>TIME_GOAL\<close> nothing is printed for the pass
  and the loop runs the next pass with a new multiplier \<open>m1\<close>: \<open>m * 2\<close> (in
  \<^verbatim>\<open>size_t\<close> arithmetic) when the pass took less than half the goal; otherwise
  \<open>max (m + 1) \<lceil>m * TIME_GOAL * 1.05 / elapsed\<rceil>\<close>, the product and the quotient being
  those of the machine's doubles, provided that value is a \<^verbatim>\<open>size_t\<close> (the conversion of
  a larger double is undefined in C) and \<open>m + 1\<close> does not wrap.  The next pass \<open>q\<close> is run
  with \<open>m1\<close>; what the loop returns is decided by that pass and the ones after it, and the
  points \<open>s1\<close>, \<open>e1\<close> of the short pass are not among the points accepted.
\<close>

theorem short_pass_adjusts_m:
  assumes p: "run_test_pass g name payload filename n m start endc w p = Measured s1 e1 w1"
    and short: "tsdiff (ts s1) (ts e1) < TIME_GOAL"
    and fits: "tsdiff (ts s1) (ts e1) < TIME_GOAL / 2 \<or>
       0 \<le> \<lceil>fdiv fp (fmul fp (fmul fp (fsize fp m) TIME_GOAL) 1.05) (tsdiff (ts s1) (ts e1))\<rceil> \<and>
       \<lceil>fdiv fp (fmul fp (fmul fp (fsize fp m) TIME_GOAL) 1.05) (tsdiff (ts s1) (ts e1))\<rceil> < 2 ^ 64 \<and>
       unat m < 2 ^ 64 - 1"
  shows "stdout w1 = stdout w \<and>
    (\<exists>m1. (if tsdiff (ts s1) (ts e1) < TIME_GOAL / 2 then m1 = m * 2
           else unat m1 =
               max (unat m + 1)
                 (nat \<lceil>fdiv fp (fmul fp (fmul fp (fsize fp m) TIME_GOAL) 1.05)
                         (tsdiff (ts s1) (ts e1))\<rceil>)) \<and>
       run_test_loop fp g name payload filename n m first_run start endc w ms (p # q # ps) =
         (case run_test_pass g name payload filename n m1 s1 e1 w1 q of
            Pass_fail w2 \<Rightarrow> Some (Exit_fail w2 (ms @ [m, m1]))
          | Pass_undefined \<Rightarrow> Some (Exit_undefined (ms @ [m, m1]))
          | Measured s2 e2 w2 \<Rightarrow>
              if tsdiff (ts s2) (ts e2) < TIME_GOAL then
                (case next_m fp m1 (tsdiff (ts s2) (ts e2)) of
                   None \<Rightarrow> Some (Exit_undefined (ms @ [m, m1]))
                 | Some m2 \<Rightarrow>
                     run_test_loop fp g name payload filename n m2 False s2 e2 w2 (ms @ [m, m1]) ps)
              else Some (Accept s2 e2 m1 w2 (ms @ [m, m1]))))"
proof (rule conjI)
  show "stdout w1 = stdout w" using p by (rule run_test_pass_stdout)
next
  define t where "t = tsdiff (ts s1) (ts e1)"
  define c where "c = \<lceil>fdiv fp (fmul fp (fmul fp (fsize fp m) TIME_GOAL) 1.05) t\<rceil>"
  note step = loop_step_short [OF p short, of fp first_run ms "q # ps", folded t_def]
  have "\<exists>m1. next_m fp m t = Some m1 \<and>
      (if t < TIME_GOAL / 2 then m1 = m * 2 else unat m1 = max (unat m + 1) (nat c))"
  proof (cases "t < TIME_GOAL / 2")
    case True
    then have "next_m fp m t = Some (2 * m)" by (rule next_m_doubling)
    then have "next_m fp m t = Some (m * 2)" by (simp only: mult.commute [of 2 m])
    with True show ?thesis by (simp only: if_True) blast
  next
    case False
    with fits have "0 \<le> c" "c < 2 ^ 64" "unat m < 2 ^ 64 - 1"
      unfolding t_def c_def by blast+
    from next_m_estimate [OF False this [unfolded c_def]] False
    show ?thesis unfolding c_def by (simp only: if_False)
  qed
  then obtain m1 where nm: "next_m fp m t = Some m1"
    and val: "if t < TIME_GOAL / 2 then m1 = m * 2 else unat m1 = max (unat m + 1) (nat c)"
    by blast
  from step nm
  have "run_test_loop fp g name payload filename n m first_run start endc w ms (p # q # ps) =
      run_test_loop fp g name payload filename n m1 False s1 e1 w1 (ms @ [m]) (q # ps)"
    by (simp only: option.case)
  then have "run_test_loop fp g name payload filename n m first_run start endc w ms (p # q # ps) =
         (case run_test_pass g name payload filename n m1 s1 e1 w1 q of
            Pass_fail w2 \<Rightarrow> Some (Exit_fail w2 (ms @ [m, m1]))
          | Pass_undefined \<Rightarrow> Some (Exit_undefined (ms @ [m, m1]))
          | Measured s2 e2 w2 \<Rightarrow>
              if tsdiff (ts s2) (ts e2) < TIME_GOAL then
                (case next_m fp m1 (tsdiff (ts s2) (ts e2)) of
                   None \<Rightarrow> Some (Exit_undefined (ms @ [m, m1]))
                 | Some m2 \<Rightarrow>
                     run_test_loop fp g name payload filename n m2 False s2 e2 w2 (ms @ [m, m1]) ps)
              else Some (Accept s2 e2 m1 w2 (ms @ [m, m1])))"
    by (simp only: loop_step_later)
  with val show "\<exists>m1. (if tsdiff (ts s1) (ts e1) < TIME_GOAL / 2 then m1 = m * 2
           else unat m1 =
               max (unat m + 1)
                 (nat \<lceil>fdiv fp (fmul fp (fmul fp (fsize fp m) TIME_GOAL) 1.05)
                         (tsdiff (ts s1) (ts e1))\<rceil>)) \<and>
       run_test_loop fp g name payload filename n m first_run start endc w ms (p # q # ps) =
         (case run_test_pass g name payload filename n m1 s1 e1 w1 q of
            Pass_fail w2 \<Rightarrow> Some (Exit_fail w2 (ms @ [m, m1]))
          | Pass_undefined \<Rightarrow> Some (Exit_undefined (ms @ [m, m1]))
          | Measured s2 e2 w2 \<Rightarrow>
              if tsdiff (ts s2) (ts e2) < TIME_GOAL then
                (case next_m fp m1 (tsdiff (ts s2) (ts e2)) of
                   None \<Rightarrow> Some (Exit_undefined (ms @ [m, m1]))
                 | Some m2 \<Rightarrow>
                     run_test_loop fp g name payload filename n m2 False s2 e2 w2 (ms @ [m, m1]) ps)
              else Some (Accept s2 e2 m1 w2 (ms @ [m, m1])))"
    unfolding t_def c_def by blast
qed

theorem short_pass_adjusts_m_witness:
  "run_test_pass (initial_globals False) ''ref'' accept_all ''f'' 4 1
     example_counters example_counters example_io (example_pass_at 10 1 500000000) =
   Measured (example_counters\<lparr>ts := \<lparr>tv_sec = 10, tv_nsec = 0\<rparr>\<rparr>)
     (example_counters\<lparr>ts := \<lparr>tv_sec = 11, tv_nsec = 500000000\<rparr>\<rparr>) example_io \<and>
   tsdiff \<lparr>tv_sec = 10, tv_nsec = 0\<rparr> \<lparr>tv_sec = 11, tv_nsec = 500000000\<rparr> = 3 / 2 \<and>
   (3 / 2 :: real) < TIME_GOAL \<and> \<not> (3 / 2 :: real) < TIME_GOAL / 2 \<and>
   \<lceil>fdiv exact_ops (fmul exact_ops (fmul exact_ops (fsize exact_ops 1) TIME_GOAL) 1.05) (3 / 2)\<rceil> = 2 \<and>
   unat (1 :: size_t) < 2 ^ 64 - 1 \<and>
   max (unat (1 :: size_t) + 1) (nat 2) = 2 \<and>
   run_test_loop exact_ops (initial_globals False) ''ref'' accept_all ''f'' 4 1 True
     example_counters example_counters example_io []
     [example_pass_at 10 1 500000000, example_pass_at 20 2 500000000] =
   Some (Accept (example_counters\<lparr>ts := \<lparr>tv_sec = 20, tv_nsec = 0\<rparr>\<rparr>)
           (example_counters\<lparr>ts := \<lparr>tv_sec = 22, tv_nsec = 500000000\<rparr>\<rparr>)
           2 example_io [1, 2])"
proof -
  let ?s = "example_counters\<lparr>ts := \<lparr>tv_sec = 10, tv_nsec = 0\<rparr>\<rparr>"
  let ?e = "example_counters\<lparr>ts := \<lparr>tv_sec = 11, tv_nsec = 500000000\<rparr>\<rparr>"
  have p: "run_test_pass (initial_globals False) ''ref'' accept_all ''f'' 4 1
       example_counters example_counters example_io (example_pass_at 10 1 500000000) =
     Measured ?s ?e example_io"
    by (simp add: example_pass_at_measured)
  have t: "tsdiff (ts ?s) (ts ?e) = 3 / 2"
    by (simp add: tsdiff_def)
  have short: "tsdiff (ts ?s) (ts ?e) < TIME_GOAL"
    unfolding t by (simp add: TIME_GOAL_def)
  have half: "\<not> (3 / 2 :: real) < TIME_GOAL / 2"
    by (simp add: TIME_GOAL_def)
  note c = example_estimate
  have m: "unat (1 :: size_t) < 2 ^ 64 - 1" by simp
  have mx: "max (unat (1 :: size_t) + 1) (nat 2) = 2" by simp
  have fits: "tsdiff (ts ?s) (ts ?e) < TIME_GOAL / 2 \<or>
      0 \<le> \<lceil>fdiv exact_ops (fmul exact_ops (fmul exact_ops (fsize exact_ops 1) TIME_GOAL) 1.05)
             (tsdiff (ts ?s) (ts ?e))\<rceil> \<and>
      \<lceil>fdiv exact_ops (fmul exact_ops (fmul exact_ops (fsize exact_ops 1) TIME_GOAL) 1.05)
         (tsdiff (ts ?s) (ts ?e))\<rceil> < 2 ^ 64 \<and>
      unat (1 :: size_t) < 2 ^ 64 - 1"
    unfolding t c by simp
  from short_pass_adjusts_m [OF p short fits, of True "[]" "example_pass_at 20 2 500000000" "[]",
      unfolded t c mx] half
  obtain m1 :: size_t where m1: "unat m1 = 2" and
    run: "run_test_loop exact_ops (initial_globals False) ''ref'' accept_all ''f'' 4 1 True
        example_counters example_counters example_io []
        [example_pass_at 10 1 500000000, example_pass_at 20 2 500000000] =
      (case run_test_pass (initial_globals False) ''ref'' accept_all ''f'' 4 m1 ?s ?e example_io
              (example_pass_at 20 2 500000000) of
            Pass_fail w2 \<Rightarrow> Some (Exit_fail w2 ([] @ [1, m1]))
          | Pass_undefined \<Rightarrow> Some (Exit_undefined ([] @ [1, m1]))
          | Measured s2 e2 w2 \<Rightarrow>
              if tsdiff (ts s2) (ts e2) < TIME_GOAL then
                (case next_m exact_ops m1 (tsdiff (ts s2) (ts e2)) of
                   None \<Rightarrow> Some (Exit_undefined ([] @ [1, m1]))
                 | Some m2 \<Rightarrow>
                     run_test_loop exact_ops (initial_globals False) ''ref'' accept_all ''f'' 4
                       m2 False s2 e2 w2 ([] @ [1, m1]) [])
              else Some (Accept s2 e2 m1 w2 ([] @ [1, m1])))"
    by (auto simp only: if_False)
  from m1 have "unat m1 = unat (2 :: size_t)" by simp
  then have m12: "m1 = 2" by (simp only: word_unat_eq_iff)
  have run': "run_test_loop exact_ops (initial_globals False) ''ref'' accept_all ''f'' 4 1 True
     example_counters example_counters example_io []
     [example_pass_at 10 1 500000000, example_pass_at 20 2 500000000] =
   Some (Accept (example_counters\<lparr>ts := \<lparr>tv_sec = 20, tv_nsec = 0\<rparr>\<rparr>)
           (example_counters\<lparr>ts := \<lparr>tv_sec = 22, tv_nsec = 500000000\<rparr>\<rparr>)
           2 example_io [1, 2])"
    unfolding run m12
    by (simp add: example_pass_at_measured tsdiff_def TIME_GOAL_def)
  have t': "tsdiff \<lparr>tv_sec = 10, tv_nsec = 0\<rparr> \<lparr>tv_sec = 11, tv_nsec = 500000000\<rparr> = 3 / 2"
    by (simp add: tsdiff_def)
  have short': "(3 / 2 :: real) < TIME_GOAL" by (simp add: TIME_GOAL_def)
  from p t' short' half c m mx run' show ?thesis by (intro conjI)
qed

subsection \<open>The multipliers under a cost per call\<close>














subsection \<open>The outcome up to the error stream\<close>


















subsection \<open>The correctness warning\<close>










end
